theory Spec2Isabelle
  imports Complex_Main "HOL-Library.AList"
begin

section \<open>Data model\<close>

text \<open>
  Prices and quantities are Python \<open>Decimal\<close> values. They are modelled as rationals:
  the code only adds, subtracts and compares them, and the special values (NaN, the
  infinities) and the rounding to the context precision are outside the model.
  Order objects are shared between the price levels, the book's id map and the engine's
  id map, and are mutated in place; the model keeps them in a store from references to
  orders, and every container holds references.
  Time stamps and the generated \<open>fill_id\<close> / \<open>trade_id\<close> are left out: no operation
  reads them. The UUID that \<open>Order.__init__\<close> generates when no id is given is a
  parameter of the constructor.
\<close>

type_synonym decimal = rat
type_synonym ref = nat

datatype py_error =
    ValueError string
  | InvalidOperation
  | AttributeError string
  | KeyError
  | TypeError

datatype OrderType = MARKET | LIMIT | IOC | FOK

datatype OrderSide = BUY | SELL

datatype OrderStatus = PENDING | PARTIALLY_FILLED | FILLED | CANCELLED | REJECTED

record Fill =
  fill_order_id :: string
  fill_quantity :: decimal
  fill_price :: decimal

record Order =
  symbol :: string
  order_id :: string
  order_type :: OrderType
  side :: OrderSide
  quantity :: decimal
  price :: decimal
  filled_quantity :: decimal
  remaining_quantity :: decimal
  status :: OrderStatus
  fills :: "Fill list"

record Trade =
  trade_symbol :: string
  trade_price :: decimal
  trade_quantity :: decimal
  maker_order_id :: string
  taker_order_id :: string
  aggressor_side :: OrderSide

record PriceLevel =
  level_price :: decimal
  level_orders :: "ref list"
  total_quantity :: decimal

record OrderBook =
  book_symbol :: string
  bid_levels :: "(decimal \<times> PriceLevel) list"
  ask_levels :: "(decimal \<times> PriceLevel) list"
  bid_prices :: "decimal list"
  ask_prices :: "decimal list"
  orders :: "string \<rightharpoonup> ref"
  best_bid :: "decimal option"
  best_ask :: "decimal option"

type_synonym store = "ref \<Rightarrow> Order"

section \<open>Order\<close>

text \<open>
  \<open>Order.__init__\<close>. The last assignment of a price is \<open>Decimal(str(price))\<close>, evaluated
  whatever the order type: with \<open>price = None\<close> it is \<open>Decimal('None')\<close>, which raises
  \<open>decimal.InvalidOperation\<close>. The id is \<open>order_id or str(uuid.uuid4())\<close>, so an empty
  string is replaced by the generated id as well.
\<close>

definition Order_init ::
  "string \<Rightarrow> OrderType \<Rightarrow> OrderSide \<Rightarrow> decimal \<Rightarrow> decimal option \<Rightarrow> string option \<Rightarrow> string
    \<Rightarrow> py_error + Order" where
  "Order_init sy ot sd q p oid uuid =
    (if q \<le> 0 then Inl (ValueError ''Quantity must be greater than zero'')
     else if ot \<in> {LIMIT, IOC, FOK} \<and> p = None
       then Inl (ValueError ''Price must be specified'')
     else if p \<noteq> None \<and> the p \<le> 0
       then Inl (ValueError ''Price must be greater than zero'')
     else (case p of
         None \<Rightarrow> Inl InvalidOperation
       | Some pr \<Rightarrow> Inr \<lparr>
           symbol = sy,
           order_id = (case oid of None \<Rightarrow> uuid | Some s \<Rightarrow> if s = [] then uuid else s),
           order_type = ot,
           side = sd,
           quantity = q,
           price = pr,
           filled_quantity = 0,
           remaining_quantity = q,
           status = PENDING,
           fills = [] \<rparr>))"

definition is_buy :: "Order \<Rightarrow> bool" where
  "is_buy ord \<longleftrightarrow> side ord = BUY"

definition is_sell :: "Order \<Rightarrow> bool" where
  "is_sell ord \<longleftrightarrow> side ord = SELL"

definition is_market_order :: "Order \<Rightarrow> bool" where
  "is_market_order ord \<longleftrightarrow> order_type ord = MARKET"

definition is_filled :: "Order \<Rightarrow> bool" where
  "is_filled ord \<longleftrightarrow> remaining_quantity ord = 0"

definition fill :: "Order \<Rightarrow> decimal \<Rightarrow> decimal \<Rightarrow> py_error + Order" where
  "fill ord q p =
    (if q \<le> 0 then Inl (ValueError ''fill quantity must be greater than zero'')
     else if q > remaining_quantity ord
       then Inl (ValueError ''fill quantity exceeds remaining quantity'')
     else
       (let ord1 = ord \<lparr>
              filled_quantity := filled_quantity ord + q,
              remaining_quantity := remaining_quantity ord - q,
              fills := fills ord @ [\<lparr> fill_order_id = order_id ord,
                                      fill_quantity = q, fill_price = p \<rparr>] \<rparr>
        in Inr (ord1 \<lparr> status :=
                  (if remaining_quantity ord1 = 0 then FILLED else PARTIALLY_FILLED) \<rparr>)))"

definition cancel :: "Order \<Rightarrow> py_error + Order" where
  "cancel ord =
    (if status ord \<in> {FILLED, CANCELLED}
       then Inl (ValueError ''Cannot cancel an order that is filled or cancelled'')
     else Inr (ord \<lparr> status := CANCELLED \<rparr>))"

section \<open>PriceLevel\<close>

text \<open>
  A price level holds its FIFO queue as a list of references, head first. The methods
  that read \<open>order.remaining_quantity\<close> take the store. \<open>remove_order\<close> returns
  whether the order was found (\<open>deque.remove\<close> raises ValueError otherwise, which the
  method catches); \<open>pop_first_order\<close> returns the popped order, or None on an empty
  queue, together with the level.
\<close>

definition PriceLevel_init :: "decimal \<Rightarrow> PriceLevel" where
  "PriceLevel_init p = \<lparr> level_price = p, level_orders = [], total_quantity = 0 \<rparr>"

definition PriceLevel_add_order :: "store \<Rightarrow> PriceLevel \<Rightarrow> ref \<Rightarrow> PriceLevel" where
  "PriceLevel_add_order h lv r =
     lv \<lparr> level_orders := level_orders lv @ [r],
          total_quantity := total_quantity lv + remaining_quantity (h r) \<rparr>"

definition PriceLevel_remove_order :: "store \<Rightarrow> PriceLevel \<Rightarrow> ref \<Rightarrow> bool \<times> PriceLevel" where
  "PriceLevel_remove_order h lv r =
     (if r \<in> set (level_orders lv)
      then (True, lv \<lparr> level_orders := remove1 r (level_orders lv),
                       total_quantity := total_quantity lv - remaining_quantity (h r) \<rparr>)
      else (False, lv))"

definition PriceLevel_get_first_order :: "PriceLevel \<Rightarrow> ref option" where
  "PriceLevel_get_first_order lv = (case level_orders lv of [] \<Rightarrow> None | r # rs \<Rightarrow> Some r)"

definition PriceLevel_is_empty :: "PriceLevel \<Rightarrow> bool" where
  "PriceLevel_is_empty lv \<longleftrightarrow> length (level_orders lv) = 0"

definition PriceLevel_pop_first_order :: "store \<Rightarrow> PriceLevel \<Rightarrow> ref option \<times> PriceLevel" where
  "PriceLevel_pop_first_order h lv =
     (case level_orders lv of
        [] \<Rightarrow> (None, lv)
      | r # rs \<Rightarrow> (Some r, lv \<lparr> level_orders := rs,
                                 total_quantity := total_quantity lv - remaining_quantity (h r) \<rparr>))"

section \<open>heapq\<close>

text \<open>
  The two price heaps are Python lists managed by the standard library's \<open>heapq\<close>.
  They are modelled by their contract, not by the sift operations: the heap is the list
  of its entries, \<open>heap[0]\<close> is the smallest entry, \<open>heappop\<close> removes one copy of
  the smallest entry, \<open>heappush\<close> adds an entry. Bids are pushed negated, as in the
  source.
\<close>

definition heap_top :: "decimal list \<Rightarrow> decimal" where
  "heap_top hp = Min (set hp)"

definition heappush :: "decimal list \<Rightarrow> decimal \<Rightarrow> decimal list" where
  "heappush hp x = x # hp"

definition heappop :: "decimal list \<Rightarrow> decimal list" where
  "heappop hp = remove1 (heap_top hp) hp"

lemma heap_top_Cons [simp, code]: "heap_top (x # xs) = fold min xs x"
  using Min.set_eq_fold [of x xs] by (simp add: heap_top_def)

lemma heap_top_in: "hp \<noteq> [] \<Longrightarrow> heap_top hp \<in> set hp"
  unfolding heap_top_def by (rule Min_in) simp_all

lemma length_heappop: "hp \<noteq> [] \<Longrightarrow> length (heappop hp) < length hp"
proof -
  assume ne: "hp \<noteq> []"
  then have "heap_top hp \<in> set hp" by (rule heap_top_in)
  then have "length (remove1 (heap_top hp) hp) = length hp - 1" by (simp add: length_remove1)
  moreover from ne have "0 < length hp" by simp
  ultimately show ?thesis by (simp add: heappop_def)
qed

section \<open>OrderBook\<close>

text \<open>
  The two dictionaries from price to level are association lists in insertion order
  (\<open>map_of\<close> looks a price up, \<open>AList.update\<close> stores, \<open>AList.delete\<close> is
  \<open>del\<close>); the id map holds references. Every method takes the store and the book
  and returns what it changed. A method that can raise returns its result as
  \<open>py_error + 'a\<close> next to the state reached when it returned or raised, since
  mutations made before an exception stay.

  \<open>truthy\<close> is Python's truth value of an optional Decimal (None and zero are false);
  \<open>live levels p\<close> is the test
  \<open>price in levels and not levels[price].is_empty()\<close> of \<open>_update_best_prices\<close>,
  whose two loops are \<open>best_price_loop\<close> (with negation for the bid heap).
\<close>

definition OrderBook_init :: "string \<Rightarrow> OrderBook" where
  "OrderBook_init sy = \<lparr> book_symbol = sy, bid_levels = [], ask_levels = [],
     bid_prices = [], ask_prices = [], orders = Map.empty, best_bid = None, best_ask = None \<rparr>"

definition truthy :: "decimal option \<Rightarrow> bool" where
  "truthy x = (case x of None \<Rightarrow> False | Some d \<Rightarrow> d \<noteq> 0)"

definition live :: "(decimal \<times> PriceLevel) list \<Rightarrow> decimal \<Rightarrow> bool" where
  "live levels p = (case map_of levels p of None \<Rightarrow> False | Some lv \<Rightarrow> \<not> PriceLevel_is_empty lv)"

function best_price_loop ::
  "(decimal \<Rightarrow> decimal) \<Rightarrow> (decimal \<times> PriceLevel) list \<Rightarrow> decimal list
    \<Rightarrow> decimal option \<times> decimal list" where
  "best_price_loop conv levels prices =
     (if prices = [] then (None, prices)
      else (let p = conv (heap_top prices)
            in if live levels p then (Some p, prices)
               else best_price_loop conv levels (heappop prices)))"
  by pat_completeness auto
termination
  by (relation "measure (\<lambda>(conv, levels, prices). length prices)") (auto simp: length_heappop)

declare best_price_loop.simps [simp del]

definition update_best_prices :: "OrderBook \<Rightarrow> OrderBook" where
  "update_best_prices b =
     (let (bb, bp) = best_price_loop uminus (bid_levels b) (bid_prices b);
          (ba, ap) = best_price_loop id (ask_levels b) (ask_prices b)
      in b \<lparr> bid_prices := bp, ask_prices := ap, best_bid := bb, best_ask := ba \<rparr>)"

definition get_best_bid :: "OrderBook \<Rightarrow> decimal option \<times> OrderBook" where
  "get_best_bid b = (let b1 = update_best_prices b in (best_bid b1, b1))"

definition get_best_ask :: "OrderBook \<Rightarrow> decimal option \<times> OrderBook" where
  "get_best_ask b = (let b1 = update_best_prices b in (best_ask b1, b1))"

definition is_marketable :: "store \<Rightarrow> OrderBook \<Rightarrow> ref \<Rightarrow> bool \<times> OrderBook" where
  "is_marketable h b r =
     (if is_market_order (h r) then (True, b)
      else (let (bb, b1) = get_best_bid b;
                (ba, b2) = get_best_ask b1
            in (if is_buy (h r) \<and> truthy ba \<and> price (h r) \<ge> the ba then True
                else if is_sell (h r) \<and> truthy bb \<and> price (h r) \<le> the bb then True
                else False, b2)))"

text \<open>
  \<open>get_depth\<close> returns, for each side, the first \<open>levels\<close> non-empty price levels in
  priority order with their \<open>total_quantity\<close> (the source formats both numbers with
  \<open>str\<close>, left out here).
\<close>

definition side_depth ::
  "bool \<Rightarrow> (decimal \<times> PriceLevel) list \<Rightarrow> nat \<Rightarrow> (decimal \<times> decimal) list" where
  "side_depth descending levels n =
     (let prices_sorted = sort (filter (live levels) (map fst levels));
          prices_sorted = (if descending then rev prices_sorted else prices_sorted)
      in map (\<lambda>p. (p, case map_of levels p of None \<Rightarrow> 0 | Some lv \<Rightarrow> total_quantity lv))
           (take n prices_sorted))"

definition get_depth ::
  "OrderBook \<Rightarrow> nat
    \<Rightarrow> ((decimal \<times> decimal) list \<times> (decimal \<times> decimal) list) \<times> OrderBook" where
  "get_depth b n =
     (let b1 = update_best_prices b
      in ((side_depth True (bid_levels b1) n, side_depth False (ask_levels b1) n), b1))"

definition get_best_opposing_price :: "OrderBook \<Rightarrow> bool \<Rightarrow> decimal option \<times> OrderBook" where
  "get_best_opposing_price b is_buy_order =
     (if is_buy_order then get_best_ask b else get_best_bid b)"

definition remove_empty_price_level :: "OrderBook \<Rightarrow> decimal \<Rightarrow> bool \<Rightarrow> OrderBook" where
  "remove_empty_price_level b p from_buy_side =
     (if from_buy_side
      then (if map_of (bid_levels b) p \<noteq> None
            then b \<lparr> bid_levels := AList.delete p (bid_levels b) \<rparr> else b)
      else (if map_of (ask_levels b) p \<noteq> None
            then b \<lparr> ask_levels := AList.delete p (ask_levels b) \<rparr> else b))"

text \<open>
  \<open>_match_order\<close>. The incoming order's side is read once (\<open>buy\<close>): it selects the
  opposing dictionary and heap and the price comparator, and no operation writes an
  order's side. \<open>match_level\<close> is the inner loop over the queue of one level,
  \<open>match_loop\<close> the outer loop over the best opposing prices; both thread the store,
  the list of trades and an optional exception. The level object is mutated in place by
  the inner loop, so its state is written back into the dictionary
  (\<open>store_opposing_level\<close>) also when the loop raised. Two branches of the source
  cannot be reached but are kept: \<open>get_first_order\<close> returning None on a non-empty
  level, and the call of \<open>self._remove_price_level\<close>, a method that does not exist
  (AttributeError), for a best price whose level is empty.
  After the inner loop the source calls
  \<open>self._remove_empty_price_level(best_price, incoming_order.is_buy)\<close>: the flag it
  passes is the incoming order's side, and \<open>_remove_empty_price_level\<close> deletes from
  \<open>bid_levels\<close> when the flag is true.
\<close>

definition opposing_levels :: "bool \<Rightarrow> OrderBook \<Rightarrow> (decimal \<times> PriceLevel) list" where
  "opposing_levels buy b = (if buy then ask_levels b else bid_levels b)"

definition opposing_prices :: "bool \<Rightarrow> OrderBook \<Rightarrow> decimal list" where
  "opposing_prices buy b = (if buy then ask_prices b else bid_prices b)"

definition store_opposing_level :: "bool \<Rightarrow> OrderBook \<Rightarrow> decimal \<Rightarrow> PriceLevel \<Rightarrow> OrderBook" where
  "store_opposing_level buy b p lv =
     (if buy then b \<lparr> ask_levels := AList.update p lv (ask_levels b) \<rparr>
      else b \<lparr> bid_levels := AList.update p lv (bid_levels b) \<rparr>)"

definition price_comparator :: "bool \<Rightarrow> Order \<Rightarrow> decimal \<Rightarrow> bool" where
  "price_comparator buy incoming p =
     (if buy then (price incoming = 0 \<or> p \<le> price incoming)
      else p \<ge> (if price incoming \<noteq> 0 then price incoming else 0))"

definition make_trade :: "string \<Rightarrow> Order \<Rightarrow> Order \<Rightarrow> Trade" where
  "make_trade sy incoming resting =
     \<lparr> trade_symbol = sy,
       trade_price = price resting,
       trade_quantity = min (remaining_quantity incoming) (remaining_quantity resting),
       maker_order_id = order_id resting,
       taker_order_id = order_id incoming,
       aggressor_side = side incoming \<rparr>"

function match_level ::
  "ref \<Rightarrow> string \<Rightarrow> store \<Rightarrow> PriceLevel \<Rightarrow> Trade list
    \<Rightarrow> py_error option \<times> store \<times> PriceLevel \<times> Trade list" where
  "match_level inc sy h lv trades =
     (if \<not> PriceLevel_is_empty lv \<and> remaining_quantity (h inc) > 0 then
        (case PriceLevel_get_first_order lv of
           None \<Rightarrow> (None, h, lv, trades)
         | Some r \<Rightarrow>
            (let trade = make_trade sy (h inc) (h r);
                 trades1 = trades @ [trade]
             in case fill (h r) (trade_quantity trade) (trade_price trade) of
                  Inl e \<Rightarrow> (Some e, h, lv, trades1)
                | Inr resting \<Rightarrow>
                   (let h1 = h(r := resting)
                    in case fill (h1 inc) (trade_quantity trade) (trade_price trade) of
                         Inl e \<Rightarrow> (Some e, h1, lv, trades1)
                       | Inr incoming \<Rightarrow>
                          (let h2 = h1(inc := incoming)
                           in if is_filled (h2 r)
                              then match_level inc sy h2
                                     (snd (PriceLevel_pop_first_order h2 lv)) trades1
                              else match_level inc sy h2
                                     (lv \<lparr> total_quantity :=
                                            total_quantity lv - trade_quantity trade \<rparr>)
                                     trades1))))
      else (None, h, lv, trades))"
  by pat_completeness auto

text \<open>
  The inner loop stops: every round either raises, pops the head of the queue, or
  leaves the incoming order with nothing remaining.
\<close>

lemma fill_remaining:
  "fill ord q p = Inr ord' \<Longrightarrow>
     remaining_quantity ord' = remaining_quantity ord - q \<and> 0 < q \<and> q \<le> remaining_quantity ord"
  by (auto simp: fill_def Let_def split: if_splits)

lemma fill_both_exhausts_incoming:
  assumes "fill (h r) (min (remaining_quantity (h inc)) (remaining_quantity (h r))) p = Inr resting"
    and "fill ((h(r := resting)) inc) (min (remaining_quantity (h inc)) (remaining_quantity (h r))) p
           = Inr incoming"
    and "\<not> is_filled ((h(r := resting, inc := incoming)) r)"
  shows "remaining_quantity incoming = 0"
proof (cases "r = inc")
  case True
  with assms(1,2) show ?thesis
    by (auto dest!: fill_remaining)
next
  case False
  with assms show ?thesis
    by (auto simp: is_filled_def min_def dest!: fill_remaining split: if_splits)
qed

termination match_level
proof (relation "measure (\<lambda>(inc, sy, h, lv, trades).
          2 * length (level_orders lv) + (if remaining_quantity (h inc) > 0 then 1 else 0))",
       goal_cases)
  case 1
  show ?case by simp
next
  case (2 inc sy h lv trades r trade trades1 resting h1 incoming h2)
  then show ?case
    by (auto simp: PriceLevel_pop_first_order_def PriceLevel_is_empty_def
          PriceLevel_get_first_order_def split: list.splits)
next
  case (3 inc sy h lv trades r trade trades1 resting h1 incoming h2)
  then have "remaining_quantity incoming = 0"
    using fill_both_exhausts_incoming [of h r inc "trade_price trade" resting incoming]
    by (simp add: make_trade_def)
  with 3 show ?case by simp
qed

declare match_level.simps [simp del]

function match_loop ::
  "ref \<Rightarrow> bool \<Rightarrow> store \<Rightarrow> OrderBook \<Rightarrow> Trade list
    \<Rightarrow> py_error option \<times> store \<times> OrderBook \<times> Trade list" where
  "match_loop inc buy h b trades =
     (if remaining_quantity (h inc) > 0 then
        (case get_best_opposing_price b buy of
           (best_price, b1) \<Rightarrow>
             if \<not> truthy best_price then (None, h, b1, trades)
             else if \<not> is_market_order (h inc)
                     \<and> \<not> price_comparator buy (h inc) (the best_price)
               then (None, h, b1, trades)
             else (case map_of (opposing_levels buy b1) (the best_price) of
                 None \<Rightarrow> (Some KeyError, h, b1, trades)
               | Some price_level \<Rightarrow>
                   if PriceLevel_is_empty price_level
                   then (Some (AttributeError ''_remove_price_level''), h, b1, trades)
                   else (case match_level inc (book_symbol b1) h price_level trades of
                      (err, h', lv', trades') \<Rightarrow>
                        (let b2 = store_opposing_level buy b1 (the best_price) lv'
                         in case err of
                              Some e \<Rightarrow> (Some e, h', b2, trades')
                            | None \<Rightarrow>
                                match_loop inc buy h'
                                  (if PriceLevel_is_empty lv'
                                   then remove_empty_price_level b2 (the best_price) buy
                                   else b2)
                                  trades'))))
      else (None, h, b, trades))"
  by pat_completeness auto

text \<open>
  The outer loop stops: a round that does not end the loop empties the level of a heap
  entry that was live, and stale entries are only ever popped. The measure counts the
  live entries of the opposing heap.
\<close>

definition oconv :: "bool \<Rightarrow> decimal \<Rightarrow> decimal" where
  "oconv buy = (if buy then id else uminus)"

definition live_count :: "bool \<Rightarrow> OrderBook \<Rightarrow> nat" where
  "live_count buy b =
     length (filter (\<lambda>x. live (opposing_levels buy b) (oconv buy x)) (opposing_prices buy b))"

lemma best_price_loop_filter:
  "filter (\<lambda>x. live levels (conv x)) (snd (best_price_loop conv levels prices))
     = filter (\<lambda>x. live levels (conv x)) prices"
proof (induction conv levels prices rule: best_price_loop.induct)
  case (1 conv levels prices)
  show ?case
  proof (cases "prices = [] \<or> live levels (conv (heap_top prices))")
    case True
    then show ?thesis by (auto simp: best_price_loop.simps [of conv levels prices])
  next
    case False
    then have "filter (\<lambda>x. live levels (conv x)) (heappop prices)
                 = filter (\<lambda>x. live levels (conv x)) prices"
      by (simp add: heappop_def filter_remove1 remove1_idem)
    with False 1 show ?thesis
      by (simp add: best_price_loop.simps [of conv levels prices])
  qed
qed

lemma best_price_loop_Some:
  "best_price_loop conv levels prices = (Some p, prices') \<Longrightarrow>
     prices' \<noteq> [] \<and> p = conv (heap_top prices') \<and> live levels p"
proof (induction conv levels prices rule: best_price_loop.induct)
  case (1 conv levels prices)
  then show ?case
    by (auto simp: best_price_loop.simps [of conv levels prices] Let_def split: if_splits)
qed

lemma update_best_prices_levels [simp]:
  "bid_levels (update_best_prices b) = bid_levels b"
  "ask_levels (update_best_prices b) = ask_levels b"
  "orders (update_best_prices b) = orders b"
  "book_symbol (update_best_prices b) = book_symbol b"
  by (simp_all add: update_best_prices_def split: prod.splits)

lemma update_best_prices_live_count [simp]:
  "live_count buy (update_best_prices b) = live_count buy b"
  using best_price_loop_filter [of "bid_levels b" uminus "bid_prices b"]
        best_price_loop_filter [of "ask_levels b" id "ask_prices b"]
  by (auto simp: live_count_def update_best_prices_def opposing_levels_def opposing_prices_def
        oconv_def split: prod.splits)

lemma get_best_opposing_price_Some:
  assumes "get_best_opposing_price b buy = (Some p, b1)"
  shows "b1 = update_best_prices b"
    and "\<exists>x \<in> set (opposing_prices buy b1). oconv buy x = p"
    and "live (opposing_levels buy b1) p"
proof -
  show b1: "b1 = update_best_prices b"
    using assms by (auto simp: get_best_opposing_price_def get_best_bid_def get_best_ask_def
        Let_def split: if_splits)
  have "(buy \<longrightarrow> best_price_loop id (ask_levels b) (ask_prices b) = (Some p, ask_prices b1))
      \<and> (\<not> buy \<longrightarrow> best_price_loop uminus (bid_levels b) (bid_prices b) = (Some p, bid_prices b1))"
    using assms by (auto simp: get_best_opposing_price_def get_best_bid_def get_best_ask_def
        update_best_prices_def Let_def split: if_splits prod.splits)
  then have "opposing_prices buy b1 \<noteq> [] \<and> p = oconv buy (heap_top (opposing_prices buy b1))
      \<and> live (opposing_levels buy b1) p"
    using b1 by (auto simp: opposing_prices_def opposing_levels_def oconv_def
        dest!: best_price_loop_Some)
  then show "\<exists>x \<in> set (opposing_prices buy b1). oconv buy x = p"
    and "live (opposing_levels buy b1) p"
    using heap_top_in [of "opposing_prices buy b1"] by auto
qed

lemma length_filter_mono:
  "(\<And>x. x \<in> set xs \<Longrightarrow> Q x \<Longrightarrow> P x) \<Longrightarrow> length (filter Q xs) \<le> length (filter P xs)"
  by (induction xs) auto

lemma length_filter_strict:
  "(\<And>x. x \<in> set xs \<Longrightarrow> Q x \<Longrightarrow> P x) \<Longrightarrow> y \<in> set xs \<Longrightarrow> P y \<Longrightarrow> \<not> Q y
     \<Longrightarrow> length (filter Q xs) < length (filter P xs)"
proof (induction xs)
  case Nil
  then show ?case by simp
next
  case (Cons a xs)
  have mono: "length (filter Q xs) \<le> length (filter P xs)"
    using Cons.prems(1) by (intro length_filter_mono) auto
  show ?case
  proof (cases "y = a")
    case True
    with Cons.prems mono show ?thesis by auto
  next
    case False
    with Cons.prems have "length (filter Q xs) < length (filter P xs)"
      by (intro Cons.IH) auto
    with Cons.prems(1) [of a] show ?thesis by auto
  qed
qed

lemma live_update:
  "live (AList.update p lv levels) q =
     (if q = p then \<not> PriceLevel_is_empty lv else live levels q)"
  by (simp add: live_def update_conv')

definition trade_qty :: "store \<Rightarrow> ref \<Rightarrow> ref \<Rightarrow> decimal" where
  "trade_qty h inc r = min (remaining_quantity (h inc)) (remaining_quantity (h r))"

definition level_after :: "PriceLevel \<Rightarrow> ref list \<Rightarrow> Order \<Rightarrow> decimal \<Rightarrow> PriceLevel" where
  "level_after lv rs resting q =
     (if is_filled resting
      then lv \<lparr> level_orders := rs,
                total_quantity := total_quantity lv - remaining_quantity resting \<rparr>
      else lv \<lparr> total_quantity := total_quantity lv - q \<rparr>)"

lemma fill_both:
  assumes "fill (h r) (trade_qty h inc r) p = Inr resting"
    and "fill ((h(r := resting)) inc) (trade_qty h inc r) p = Inr incoming"
  shows "r \<noteq> inc" and "fill (h inc) (trade_qty h inc r) p = Inr incoming"
proof -
  show "r \<noteq> inc"
  proof
    assume "r = inc"
    with assms show False by (auto simp: trade_qty_def dest!: fill_remaining)
  qed
  with assms(2) show "fill (h inc) (trade_qty h inc r) p = Inr incoming" by simp
qed

lemma match_level_stop:
  "PriceLevel_is_empty lv \<or> remaining_quantity (h inc) \<le> 0 \<Longrightarrow>
     match_level inc sy h lv trades = (None, h, lv, trades)"
  by (subst match_level.simps) auto

lemma match_level_err1:
  "level_orders lv = r # rs \<Longrightarrow> 0 < remaining_quantity (h inc) \<Longrightarrow>
   fill (h r) (trade_qty h inc r) (price (h r)) = Inl e \<Longrightarrow>
     match_level inc sy h lv trades = (Some e, h, lv, trades @ [make_trade sy (h inc) (h r)])"
  by (subst match_level.simps)
     (simp add: PriceLevel_is_empty_def PriceLevel_get_first_order_def make_trade_def
        trade_qty_def)

lemma match_level_err2:
  "level_orders lv = r # rs \<Longrightarrow> 0 < remaining_quantity (h inc) \<Longrightarrow>
   fill (h r) (trade_qty h inc r) (price (h r)) = Inr resting \<Longrightarrow>
   fill ((h(r := resting)) inc) (trade_qty h inc r) (price (h r)) = Inl e \<Longrightarrow>
     match_level inc sy h lv trades
       = (Some e, h(r := resting), lv, trades @ [make_trade sy (h inc) (h r)])"
  by (subst match_level.simps)
     (simp add: PriceLevel_is_empty_def PriceLevel_get_first_order_def make_trade_def
        trade_qty_def)

lemma match_level_rec:
  assumes "level_orders lv = r # rs" and "0 < remaining_quantity (h inc)"
    and "fill (h r) (trade_qty h inc r) (price (h r)) = Inr resting"
    and "fill ((h(r := resting)) inc) (trade_qty h inc r) (price (h r)) = Inr incoming"
  shows "match_level inc sy h lv trades
       = match_level inc sy (h(r := resting, inc := incoming))
           (level_after lv rs resting (trade_qty h inc r))
           (trades @ [make_trade sy (h inc) (h r)])"
proof -
  have "r \<noteq> inc" using fill_both(1) [OF assms(3,4)] .
  with assms show ?thesis
    by (subst match_level.simps)
       (simp add: PriceLevel_is_empty_def PriceLevel_get_first_order_def make_trade_def
          trade_qty_def level_after_def PriceLevel_pop_first_order_def)
qed

lemma match_level_cases_induct [case_names stop err1 err2 rec]:
  assumes stop: "\<And>inc sy h lv trades.
      PriceLevel_is_empty lv \<or> remaining_quantity (h inc) \<le> 0 \<Longrightarrow> P inc sy h lv trades"
    and err1: "\<And>inc sy h lv trades r rs e.
      level_orders lv = r # rs \<Longrightarrow> 0 < remaining_quantity (h inc) \<Longrightarrow>
      fill (h r) (trade_qty h inc r) (price (h r)) = Inl e \<Longrightarrow> P inc sy h lv trades"
    and err2: "\<And>inc sy h lv trades r rs resting e.
      level_orders lv = r # rs \<Longrightarrow> 0 < remaining_quantity (h inc) \<Longrightarrow>
      fill (h r) (trade_qty h inc r) (price (h r)) = Inr resting \<Longrightarrow>
      fill ((h(r := resting)) inc) (trade_qty h inc r) (price (h r)) = Inl e \<Longrightarrow>
      P inc sy h lv trades"
    and rec: "\<And>inc sy h lv trades r rs resting incoming.
      level_orders lv = r # rs \<Longrightarrow> 0 < remaining_quantity (h inc) \<Longrightarrow> r \<noteq> inc \<Longrightarrow>
      fill (h r) (trade_qty h inc r) (price (h r)) = Inr resting \<Longrightarrow>
      fill ((h(r := resting)) inc) (trade_qty h inc r) (price (h r)) = Inr incoming \<Longrightarrow>
      fill (h inc) (trade_qty h inc r) (price (h r)) = Inr incoming \<Longrightarrow>
      P inc sy (h(r := resting, inc := incoming)) (level_after lv rs resting (trade_qty h inc r))
        (trades @ [make_trade sy (h inc) (h r)]) \<Longrightarrow>
      P inc sy h lv trades"
  shows "P inc sy h lv trades"
proof (induction inc sy h lv trades rule: match_level.induct)
  case (1 inc sy h lv trades)
  show ?case
  proof (cases "PriceLevel_is_empty lv \<or> remaining_quantity (h inc) \<le> 0")
    case True
    then show ?thesis by (rule stop)
  next
    case False
    then obtain r rs where lv: "level_orders lv = r # rs"
      by (cases "level_orders lv") (auto simp: PriceLevel_is_empty_def)
    from False have pos: "0 < remaining_quantity (h inc)" by simp
    have gf: "PriceLevel_get_first_order lv = Some r"
      using lv by (simp add: PriceLevel_get_first_order_def)
    have c: "\<not> PriceLevel_is_empty lv \<and> 0 < remaining_quantity (h inc)"
      using False by simp
    have tq: "trade_quantity (make_trade sy (h inc) (h r)) = trade_qty h inc r"
      and tp: "trade_price (make_trade sy (h inc) (h r)) = price (h r)"
      by (simp_all add: make_trade_def trade_qty_def)
    show ?thesis
    proof (cases "fill (h r) (trade_qty h inc r) (price (h r))")
      case (Inl e)
      with lv pos show ?thesis by (rule err1)
    next
      case (Inr resting)
      note f1 = this
      show ?thesis
      proof (cases "fill ((h(r := resting)) inc) (trade_qty h inc r) (price (h r))")
        case (Inl e)
        with lv pos f1 show ?thesis by (rule err2)
      next
        case (Inr incoming)
        note f2 = this
        have ne: "r \<noteq> inc" and f2': "fill (h inc) (trade_qty h inc r) (price (h r)) = Inr incoming"
          using fill_both [OF f1 f2] by auto
        have "P inc sy (h(r := resting, inc := incoming)) (level_after lv rs resting (trade_qty h inc r))
                (trades @ [make_trade sy (h inc) (h r)])"
        proof (cases "is_filled resting")
          case True
          have "P inc sy (h(r := resting, inc := incoming))
                  (snd (PriceLevel_pop_first_order (h(r := resting, inc := incoming)) lv))
                  (trades @ [make_trade sy (h inc) (h r)])"
            using f1 f2 True ne
            by (intro "1.IH"(1) [OF c gf refl refl _ refl _ refl]) (simp_all add: tq tp)
          with True ne lv show ?thesis
            by (simp add: level_after_def PriceLevel_pop_first_order_def)
        next
          case False
          have "P inc sy (h(r := resting, inc := incoming))
                  (lv\<lparr>total_quantity := total_quantity lv
                        - trade_quantity (make_trade sy (h inc) (h r))\<rparr>)
                  (trades @ [make_trade sy (h inc) (h r)])"
            using f1 f2 False ne
            by (intro "1.IH"(2) [OF c gf refl refl _ refl _ refl]) (simp_all add: tq tp)
          with False show ?thesis
            by (simp add: level_after_def tq)
        qed
        with lv pos ne f1 f2 f2' show ?thesis by (rule rec)
      qed
    qed
  qed
qed

lemma match_level_exit:
  "match_level inc sy h lv trades = (None, h', lv', trades') \<Longrightarrow>
     PriceLevel_is_empty lv' \<or> remaining_quantity (h' inc) \<le> 0"
proof (induction inc sy h lv trades rule: match_level_cases_induct)
  case (stop inc sy h lv trades)
  then show ?case by (auto simp: match_level_stop)
next
  case (err1 inc sy h lv trades r rs e)
  then show ?case by (simp add: match_level_err1)
next
  case (err2 inc sy h lv trades r rs resting e)
  then show ?case by (simp add: match_level_err2)
next
  case (rec inc sy h lv trades r rs resting incoming)
  from rec.prems rec.hyps
  have "match_level inc sy (h(r := resting, inc := incoming))
          (level_after lv rs resting (trade_qty h inc r))
          (trades @ [make_trade sy (h inc) (h r)]) = (None, h', lv', trades')"
    by (simp add: match_level_rec)
  then show ?case by (rule rec.IH)
qed

lemma remove_empty_price_level_opposing [simp]:
  "opposing_levels buy (remove_empty_price_level b p buy) = opposing_levels buy b"
  "opposing_prices buy (remove_empty_price_level b p buy) = opposing_prices buy b"
  by (simp_all add: opposing_levels_def opposing_prices_def remove_empty_price_level_def)

lemma store_opposing_level_opposing [simp]:
  "opposing_levels buy (store_opposing_level buy b p lv) = AList.update p lv (opposing_levels buy b)"
  "opposing_prices buy (store_opposing_level buy b p lv) = opposing_prices buy b"
  by (simp_all add: opposing_levels_def opposing_prices_def store_opposing_level_def)

lemma match_loop_measure:
  assumes pos: "0 < remaining_quantity (h inc)"
    and best: "get_best_opposing_price b buy = (bp, b1)"
    and tr: "truthy bp"
    and lv: "\<not> PriceLevel_is_empty price_level"
    and ml: "match_level inc sy h price_level trades = (None, h', lv', trades')"
  shows "2 * live_count buy
            (if PriceLevel_is_empty lv'
             then remove_empty_price_level (store_opposing_level buy b1 (the bp) lv') (the bp) buy
             else store_opposing_level buy b1 (the bp) lv')
          + (if 0 < remaining_quantity (h' inc) then 1 else 0)
        < 2 * live_count buy b + 1"
proof -
  from tr obtain p where bp: "bp = Some p" by (cases bp) (auto simp: truthy_def)
  note gb = get_best_opposing_price_Some [OF best [unfolded bp]]
  have lc: "live_count buy b1 = live_count buy b" using gb(1) by simp
  from gb(2) obtain x where x: "x \<in> set (opposing_prices buy b1)" "oconv buy x = p" by auto
  show ?thesis
  proof (cases "PriceLevel_is_empty lv'")
    case True
    have "live_count buy (store_opposing_level buy b1 p lv') < live_count buy b1"
      unfolding live_count_def using x gb(3) True
      by (auto intro!: length_filter_strict [where y = x] simp: live_update split: if_splits)
    with True lc bp show ?thesis by (simp add: live_count_def)
  next
    case False
    have "live_count buy (store_opposing_level buy b1 p lv') = live_count buy b1"
      unfolding live_count_def using gb(3) False
      by (auto intro!: arg_cong [where f = length] filter_cong simp: live_update)
    moreover from False match_level_exit [OF ml] have "remaining_quantity (h' inc) \<le> 0" by simp
    ultimately show ?thesis using False lc bp by simp
  qed
qed

termination match_loop
proof (relation "measure (\<lambda>(inc, buy, h, b, trades).
          2 * live_count buy b + (if remaining_quantity (h inc) > 0 then 1 else 0))",
       goal_cases)
  case 1
  show ?case by simp
next
  case (2 inc buy h b trades bp b1 lv err ya h' yb lv' trades' b2)
  have "match_level inc (book_symbol b1) h lv trades = (None, h', lv', trades')"
    using 2(7,8,9,11) by (metis prod.collapse fst_conv snd_conv)
  from match_loop_measure [OF 2(1) 2(2) [symmetric] 2(3) [simplified] 2(6) this] 2(10) 2(1)
  show ?case by (simp split: if_splits)
qed

declare match_loop.simps [simp del]

definition match_order ::
  "store \<Rightarrow> OrderBook \<Rightarrow> ref \<Rightarrow> (py_error + Trade list) \<times> store \<times> OrderBook" where
  "match_order h b inc =
     (case match_loop inc (is_buy (h inc)) h b [] of
        (Some e, h1, b1, trades) \<Rightarrow> (Inl e, h1, b1)
      | (None, h1, b1, trades) \<Rightarrow>
          if order_type (h1 inc) = IOC \<and> remaining_quantity (h1 inc) > 0 then
            (case cancel (h1 inc) of
               Inl e \<Rightarrow> (Inl e, h1, b1)
             | Inr c \<Rightarrow> (Inr trades, h1(inc := c), b1))
          else if order_type (h1 inc) = FOK \<and> \<not> is_filled (h1 inc) then
            (case cancel (h1 inc) of
               Inl e \<Rightarrow> (Inl e, h1, b1)
             | Inr c \<Rightarrow> (Inr trades, h1(inc := c), b1))
          else (Inr trades, h1, b1))"

definition add_to_book :: "store \<Rightarrow> OrderBook \<Rightarrow> ref \<Rightarrow> OrderBook" where
  "add_to_book h b r =
     (let p = price (h r) in
      if is_buy (h r) then
        (case map_of (bid_levels b) p of
           None \<Rightarrow>
             b \<lparr> bid_levels :=
                   AList.update p (PriceLevel_add_order h (PriceLevel_init p) r) (bid_levels b),
                 bid_prices := heappush (bid_prices b) (- p) \<rparr>
         | Some lv \<Rightarrow>
             b \<lparr> bid_levels := AList.update p (PriceLevel_add_order h lv r) (bid_levels b) \<rparr>)
      else
        (case map_of (ask_levels b) p of
           None \<Rightarrow>
             b \<lparr> ask_levels :=
                   AList.update p (PriceLevel_add_order h (PriceLevel_init p) r) (ask_levels b),
                 ask_prices := heappush (ask_prices b) p \<rparr>
         | Some lv \<Rightarrow>
             b \<lparr> ask_levels := AList.update p (PriceLevel_add_order h lv r) (ask_levels b) \<rparr>))"

definition remove_from_book :: "store \<Rightarrow> OrderBook \<Rightarrow> ref \<Rightarrow> bool \<times> OrderBook" where
  "remove_from_book h b r =
     (let buy = is_buy (h r); p = price (h r) in
      case map_of (if buy then bid_levels b else ask_levels b) p of
        None \<Rightarrow> (False, b)
      | Some lv \<Rightarrow>
          (case PriceLevel_remove_order h lv r of
             (removed, lv') \<Rightarrow>
               (let b1 = (if buy then b \<lparr> bid_levels := AList.update p lv' (bid_levels b) \<rparr>
                          else b \<lparr> ask_levels := AList.update p lv' (ask_levels b) \<rparr>)
                in (removed,
                    if PriceLevel_is_empty lv' then remove_empty_price_level b1 p buy else b1))))"

definition OrderBook_add_order ::
  "store \<Rightarrow> OrderBook \<Rightarrow> ref \<Rightarrow> (py_error + Trade list) \<times> store \<times> OrderBook" where
  "OrderBook_add_order h b r =
     (if symbol (h r) \<noteq> book_symbol b
      then (Inl (ValueError ''Order symbol does not match order book symbol''), h, b)
      else
        (let b1 = b \<lparr> orders := (orders b)(order_id (h r) \<mapsto> r) \<rparr> in
         case is_marketable h b1 r of
           (marketable, b2) \<Rightarrow>
             (case (if marketable then match_order h b2 r else (Inr [], h, b2)) of
                (Inl e, h3, b3) \<Rightarrow> (Inl e, h3, b3)
              | (Inr trades, h3, b3) \<Rightarrow>
                  (Inr trades, h3,
                   if remaining_quantity (h3 r) > 0 \<and> order_type (h3 r) \<in> {LIMIT}
                   then add_to_book h3 b3 r else b3))))"

definition OrderBook_cancel_order ::
  "store \<Rightarrow> OrderBook \<Rightarrow> string \<Rightarrow> (py_error + bool) \<times> store \<times> OrderBook" where
  "OrderBook_cancel_order h b oid =
     (case orders b oid of
        None \<Rightarrow> (Inr False, h, b)
      | Some r \<Rightarrow>
          (case remove_from_book h b r of
             (removed, b1) \<Rightarrow>
               if removed then
                 (case cancel (h r) of
                    Inl e \<Rightarrow> (Inl e, h, b1)
                  | Inr c \<Rightarrow> (Inr True, h(r := c), b1))
               else (Inr False, h, b1)))"

lemma get_best_opposing_price_eq:
  "get_best_opposing_price b buy =
     ((if buy then best_ask (update_best_prices b) else best_bid (update_best_prices b)),
      update_best_prices b)"
  by (simp add: get_best_opposing_price_def get_best_ask_def get_best_bid_def Let_def)

definition book_after_level :: "bool \<Rightarrow> OrderBook \<Rightarrow> decimal \<Rightarrow> PriceLevel \<Rightarrow> OrderBook" where
  "book_after_level buy b p lv =
     (if PriceLevel_is_empty lv
      then remove_empty_price_level (store_opposing_level buy b p lv) p buy
      else store_opposing_level buy b p lv)"

lemma match_loop_cases_induct [case_names stop no_match err rec]:
  assumes stop: "\<And>inc buy h b trades.
      remaining_quantity (h inc) \<le> 0 \<Longrightarrow>
      match_loop inc buy h b trades = (None, h, b, trades) \<Longrightarrow> P inc buy h b trades"
    and no_match: "\<And>inc buy h b trades e.
      0 < remaining_quantity (h inc) \<Longrightarrow>
      match_loop inc buy h b trades = (e, h, update_best_prices b, trades) \<Longrightarrow>
      P inc buy h b trades"
    and err: "\<And>inc buy h b trades p lv e h' lv' trades'.
      0 < remaining_quantity (h inc) \<Longrightarrow>
      map_of (opposing_levels buy (update_best_prices b)) p = Some lv \<Longrightarrow>
      match_level inc (book_symbol b) h lv trades = (Some e, h', lv', trades') \<Longrightarrow>
      match_loop inc buy h b trades
        = (Some e, h', store_opposing_level buy (update_best_prices b) p lv', trades') \<Longrightarrow>
      P inc buy h b trades"
    and rec: "\<And>inc buy h b trades p lv h' lv' trades'.
      0 < remaining_quantity (h inc) \<Longrightarrow>
      map_of (opposing_levels buy (update_best_prices b)) p = Some lv \<Longrightarrow>
      match_level inc (book_symbol b) h lv trades = (None, h', lv', trades') \<Longrightarrow>
      match_loop inc buy h b trades
        = match_loop inc buy h' (book_after_level buy (update_best_prices b) p lv') trades' \<Longrightarrow>
      P inc buy h' (book_after_level buy (update_best_prices b) p lv') trades' \<Longrightarrow>
      P inc buy h b trades"
  shows "P inc buy h b trades"
proof (induction inc buy h b trades rule: match_loop.induct)
  case (1 inc buy h b trades)
  let ?b1 = "update_best_prices b"
  let ?bp = "if buy then best_ask ?b1 else best_bid ?b1"
  have gb: "get_best_opposing_price b buy = (?bp, ?b1)"
    by (simp add: get_best_opposing_price_eq)
  show ?case
  proof (cases "0 < remaining_quantity (h inc)")
    case False
    then show ?thesis
      by (intro stop) (simp_all add: match_loop.simps [of inc buy h b trades])
  next
    case pos: True
    show ?thesis
    proof (cases "truthy ?bp \<and> (is_market_order (h inc) \<or> price_comparator buy (h inc) (the ?bp))")
      case False
      with pos gb have "match_loop inc buy h b trades = (None, h, ?b1, trades)"
        by (auto simp: match_loop.simps [of inc buy h b trades])
      with pos show ?thesis by (rule no_match)
    next
      case cross: True
      show ?thesis
      proof (cases "map_of (opposing_levels buy ?b1) (the ?bp)")
        case None
        with pos gb cross have "match_loop inc buy h b trades = (Some KeyError, h, ?b1, trades)"
          by (auto simp: match_loop.simps [of inc buy h b trades])
        with pos show ?thesis by (rule no_match)
      next
        case (Some lv)
        note lv = this
        show ?thesis
        proof (cases "PriceLevel_is_empty lv")
          case True
          with pos gb cross lv
          have "match_loop inc buy h b trades
                  = (Some (AttributeError ''_remove_price_level''), h, ?b1, trades)"
            by (auto simp: match_loop.simps [of inc buy h b trades])
          with pos show ?thesis by (rule no_match)
        next
          case ne: False
          obtain e h' lv' trades' where
            ml: "match_level inc (book_symbol ?b1) h lv trades = (e, h', lv', trades')"
            by (cases "match_level inc (book_symbol ?b1) h lv trades") auto
          then have ml': "match_level inc (book_symbol b) h lv trades = (e, h', lv', trades')"
            by simp
          show ?thesis
          proof (cases e)
            case (Some er)
            with pos gb cross lv ne ml
            have eq: "match_loop inc buy h b trades
                    = (Some er, h', store_opposing_level buy ?b1 (the ?bp) lv', trades')"
              by (auto simp: match_loop.simps [of inc buy h b trades])
            from pos lv ml' [unfolded Some] eq show ?thesis by (rule err)
          next
            case None
            with pos gb cross lv ne ml
            have eq: "match_loop inc buy h b trades
                    = match_loop inc buy h' (book_after_level buy ?b1 (the ?bp) lv') trades'"
              by (auto simp: match_loop.simps [of inc buy h b trades] book_after_level_def)
            have "P inc buy h' (book_after_level buy ?b1 (the ?bp) lv') trades'"
              unfolding book_after_level_def
              using cross None
              by (intro "1.IH" [OF pos gb [symmetric] _ _ lv ne ml [symmetric] refl refl refl])
                 auto
            with pos lv ml' [unfolded None] eq show ?thesis by (rule rec)
          qed
        qed
      qed
    qed
  qed
qed

section \<open>Frame properties of matching\<close>

text \<open>
  What \<open>fill\<close> and \<open>cancel\<close> keep: the identity, type, side, quantity and price of an
  order, and that its status is not REJECTED.
\<close>

definition order_evolves :: "Order \<Rightarrow> Order \<Rightarrow> bool" where
  "order_evolves a b \<longleftrightarrow>
     symbol b = symbol a \<and> order_id b = order_id a \<and> order_type b = order_type a \<and>
     side b = side a \<and> quantity b = quantity a \<and> price b = price a \<and>
     (status a \<noteq> REJECTED \<longrightarrow> status b \<noteq> REJECTED)"

lemma order_evolves_refl [simp]: "order_evolves a a"
  by (simp add: order_evolves_def)

lemma order_evolves_trans: "order_evolves a b \<Longrightarrow> order_evolves b c \<Longrightarrow> order_evolves a c"
  by (simp add: order_evolves_def)

lemma fill_evolves: "fill a q p = Inr b \<Longrightarrow> order_evolves a b"
  by (auto simp: fill_def order_evolves_def Let_def split: if_splits)

lemma cancel_evolves: "cancel a = Inr b \<Longrightarrow> order_evolves a b"
  by (auto simp: cancel_def order_evolves_def split: if_splits)

lemma fill_twice_evolves:
  assumes "fill (h r) q p = Inr resting" and "fill (h inc) q p = Inr incoming" and "r \<noteq> inc"
  shows "order_evolves (h x) ((h(r := resting, inc := incoming)) x)"
  using assms by (auto dest: fill_evolves)

lemma match_level_evolves:
  "match_level inc sy h lv acc = (e, h', lv', acc') \<Longrightarrow> order_evolves (h x) (h' x)"
proof (induction inc sy h lv acc rule: match_level_cases_induct)
  case (stop inc sy h lv acc)
  then show ?case by (auto simp: match_level_stop)
next
  case (err1 inc sy h lv acc r rs er)
  then show ?case by (simp add: match_level_err1)
next
  case (err2 inc sy h lv acc r rs resting er)
  then show ?case by (auto simp: match_level_err2 dest: fill_evolves)
next
  case (rec inc sy h lv acc r rs resting incoming)
  from rec.prems rec.hyps
  have "match_level inc sy (h(r := resting, inc := incoming))
          (level_after lv rs resting (trade_qty h inc r))
          (acc @ [make_trade sy (h inc) (h r)]) = (e, h', lv', acc')"
    by (simp add: match_level_rec)
  then have "order_evolves ((h(r := resting, inc := incoming)) x) (h' x)" by (rule rec.IH)
  moreover have "order_evolves (h x) ((h(r := resting, inc := incoming)) x)"
    using rec.hyps by (intro fill_twice_evolves) auto
  ultimately show ?case by (blast intro: order_evolves_trans)
qed

lemma match_loop_evolves:
  "match_loop inc buy h b acc = (e, h', b', acc') \<Longrightarrow> order_evolves (h x) (h' x)"
proof (induction inc buy h b acc rule: match_loop_cases_induct)
  case (stop inc buy h b acc)
  then show ?case by simp
next
  case (no_match inc buy h b acc er)
  then show ?case by simp
next
  case (err inc buy h b acc p lv er h1 lv1 acc1)
  then show ?case by (auto dest: match_level_evolves)
next
  case (rec inc buy h b acc p lv h1 lv1 acc1)
  from rec.prems rec.hyps have "order_evolves (h1 x) (h' x)" by (intro rec.IH) simp
  moreover from rec.hyps have "order_evolves (h x) (h1 x)" by (auto dest: match_level_evolves)
  ultimately show ?case by (blast intro: order_evolves_trans)
qed

lemma match_order_evolves:
  "match_order h b inc = (res, h', b') \<Longrightarrow> order_evolves (h x) (h' x)"
proof -
  assume mo: "match_order h b inc = (res, h', b')"
  obtain e h1 b1 acc1 where ml: "match_loop inc (is_buy (h inc)) h b [] = (e, h1, b1, acc1)"
    by (cases "match_loop inc (is_buy (h inc)) h b []") auto
  then have 1: "order_evolves (h x) (h1 x)" by (rule match_loop_evolves)
  have "order_evolves (h1 x) (h' x)"
    using mo ml by (auto simp: match_order_def split: option.splits if_splits sum.splits
        dest: cancel_evolves)
  with 1 show ?thesis by (blast intro: order_evolves_trans)
qed

lemma OrderBook_add_order_evolves:
  "OrderBook_add_order h b r = (res, h', b') \<Longrightarrow> order_evolves (h x) (h' x)"
  by (auto simp: OrderBook_add_order_def Let_def
      split: if_splits prod.splits sum.splits dest: match_order_evolves)

lemma OrderBook_cancel_order_evolves:
  "OrderBook_cancel_order h b oid = (res, h', b') \<Longrightarrow> order_evolves (h x) (h' x)"
  by (auto simp: OrderBook_cancel_order_def
      split: option.splits if_splits prod.splits sum.splits dest: cancel_evolves)

section \<open>The id map\<close>

lemma orders_frame [simp]:
  "orders (store_opposing_level buy b p lv) = orders b"
  "orders (remove_empty_price_level b p side_flag) = orders b"
  "orders (book_after_level buy b p lv) = orders b"
  "orders (add_to_book h b r) = orders b"
  by (simp_all add: store_opposing_level_def remove_empty_price_level_def book_after_level_def
      add_to_book_def Let_def split: option.splits)

lemma book_symbol_frame [simp]:
  "book_symbol (store_opposing_level buy b p lv) = book_symbol b"
  "book_symbol (remove_empty_price_level b p side_flag) = book_symbol b"
  "book_symbol (book_after_level buy b p lv) = book_symbol b"
  "book_symbol (add_to_book h b r) = book_symbol b"
  by (simp_all add: store_opposing_level_def remove_empty_price_level_def book_after_level_def
      add_to_book_def Let_def split: option.splits)

lemma match_loop_orders:
  "match_loop inc buy h b acc = (e, h', b', acc') \<Longrightarrow>
     orders b' = orders b \<and> book_symbol b' = book_symbol b"
proof (induction inc buy h b acc rule: match_loop_cases_induct)
  case (stop inc buy h b acc)
  then show ?case by simp
next
  case (no_match inc buy h b acc er)
  then show ?case by auto
next
  case (err inc buy h b acc p lv er h1 lv1 acc1)
  then show ?case by auto
next
  case (rec inc buy h b acc p lv h1 lv1 acc1)
  from rec.prems rec.hyps
  have "orders b' = orders (book_after_level buy (update_best_prices b) p lv1)
      \<and> book_symbol b' = book_symbol (book_after_level buy (update_best_prices b) p lv1)"
    by (intro rec.IH) simp
  then show ?case by simp
qed

lemma match_order_orders:
  "match_order h b inc = (res, h', b') \<Longrightarrow> orders b' = orders b \<and> book_symbol b' = book_symbol b"
  by (auto simp: match_order_def split: prod.splits option.splits if_splits sum.splits
      dest: match_loop_orders)

lemma is_marketable_orders:
  "is_marketable h b r = (m, b') \<Longrightarrow> orders b' = orders b \<and> book_symbol b' = book_symbol b"
  by (auto simp: is_marketable_def get_best_bid_def get_best_ask_def Let_def split: if_splits)

lemma OrderBook_add_order_orders:
  "orders (snd (snd (OrderBook_add_order h b r)))
     = (if symbol (h r) = book_symbol b then (orders b)(order_id (h r) \<mapsto> r) else orders b)"
proof (cases "symbol (h r) = book_symbol b")
  case False
  then show ?thesis by (simp add: OrderBook_add_order_def)
next
  case True
  let ?b1 = "b \<lparr> orders := (orders b)(order_id (h r) \<mapsto> r) \<rparr>"
  obtain m b2 where im: "is_marketable h ?b1 r = (m, b2)" by (cases "is_marketable h ?b1 r") auto
  then have b2: "orders b2 = (orders b)(order_id (h r) \<mapsto> r)"
    by (auto dest: is_marketable_orders)
  obtain res h3 b3 where mo: "(if m then match_order h b2 r else (Inr [], h, b2)) = (res, h3, b3)"
    by (cases "if m then match_order h b2 r else (Inr [], h, b2)") auto
  then have "orders b3 = orders b2"
    by (auto split: if_splits dest: match_order_orders)
  with True im mo b2 show ?thesis
    by (cases res) (simp_all add: OrderBook_add_order_def Let_def)
qed

lemma remove_from_book_orders:
  "remove_from_book h b r = (removed, b') \<Longrightarrow> orders b' = orders b"
  by (auto simp: remove_from_book_def Let_def split: option.splits prod.splits if_splits)

lemma OrderBook_cancel_order_orders:
  "orders (snd (snd (OrderBook_cancel_order h b oid))) = orders b"
  by (auto simp: OrderBook_cancel_order_def split: option.splits prod.splits sum.splits
      dest: remove_from_book_orders)

section \<open>The trades of one submission\<close>

text \<open>
  The specification's matching rule, in its own words (4.4, step 4): each execution takes
  a maker \<open>r\<close>, trades \<open>min(incoming.remaining, maker.remaining)\<close> at the maker's price,
  applies the fill to both orders and appends a Trade whose aggressor side is the
  taker's. \<open>spec_trade_sequence sy inc h ts h'\<close> says that the list \<open>ts\<close> is a sequence
  of such executions for the incoming order \<open>inc\<close>, started in store \<open>h\<close> and ending in
  \<open>h'\<close>; every quantity and price is read from the store at the time of its match.
\<close>

inductive spec_trade_sequence :: "string \<Rightarrow> ref \<Rightarrow> store \<Rightarrow> Trade list \<Rightarrow> store \<Rightarrow> bool"
  for sy :: string and inc :: ref where
  no_trade: "spec_trade_sequence sy inc h [] h"
| execution:
    "r \<noteq> inc \<Longrightarrow>
     q = min (remaining_quantity (h inc)) (remaining_quantity (h r)) \<Longrightarrow>
     fill (h r) q (price (h r)) = Inr resting \<Longrightarrow>
     fill (h inc) q (price (h r)) = Inr incoming \<Longrightarrow>
     spec_trade_sequence sy inc (h(r := resting, inc := incoming)) ts h' \<Longrightarrow>
     spec_trade_sequence sy inc h
       (\<lparr> trade_symbol = sy, trade_price = price (h r), trade_quantity = q,
          maker_order_id = order_id (h r), taker_order_id = order_id (h inc),
          aggressor_side = side (h inc) \<rparr> # ts) h'"

lemma spec_trade_sequence_append:
  "spec_trade_sequence sy inc h ts1 h1 \<Longrightarrow> spec_trade_sequence sy inc h1 ts2 h2 \<Longrightarrow>
     spec_trade_sequence sy inc h (ts1 @ ts2) h2"
  by (induction rule: spec_trade_sequence.induct)
     (auto intro: spec_trade_sequence.intros)

lemma match_level_trade_sequence:
  "match_level inc sy h lv acc = (None, h', lv', acc') \<Longrightarrow>
     \<exists>ts. acc' = acc @ ts \<and> spec_trade_sequence sy inc h ts h'"
proof (induction inc sy h lv acc rule: match_level_cases_induct)
  case (stop inc sy h lv acc)
  then show ?case by (auto simp: match_level_stop intro: spec_trade_sequence.no_trade)
next
  case (err1 inc sy h lv acc r rs er)
  then show ?case by (simp add: match_level_err1)
next
  case (err2 inc sy h lv acc r rs resting er)
  then show ?case by (simp add: match_level_err2)
next
  case (rec inc sy h lv acc r rs resting incoming)
  from rec.prems rec.hyps
  have "match_level inc sy (h(r := resting, inc := incoming))
          (level_after lv rs resting (trade_qty h inc r))
          (acc @ [make_trade sy (h inc) (h r)]) = (None, h', lv', acc')"
    by (simp add: match_level_rec)
  then obtain ts where ts: "acc' = (acc @ [make_trade sy (h inc) (h r)]) @ ts"
    and seq: "spec_trade_sequence sy inc (h(r := resting, inc := incoming)) ts h'"
    using rec.IH by blast
  have "spec_trade_sequence sy inc h
          (\<lparr> trade_symbol = sy, trade_price = price (h r), trade_quantity = trade_qty h inc r,
             maker_order_id = order_id (h r), taker_order_id = order_id (h inc),
             aggressor_side = side (h inc) \<rparr> # ts) h'"
    using rec.hyps seq
    by (intro spec_trade_sequence.execution [where resting = resting and incoming = incoming])
       (simp_all add: trade_qty_def)
  then have "spec_trade_sequence sy inc h (make_trade sy (h inc) (h r) # ts) h'"
    by (simp add: make_trade_def trade_qty_def)
  with ts show ?case by auto
qed

lemma match_loop_trade_sequence:
  "match_loop inc buy h b acc = (None, h', b', acc') \<Longrightarrow>
     \<exists>ts. acc' = acc @ ts \<and> spec_trade_sequence (book_symbol b) inc h ts h'"
proof (induction inc buy h b acc rule: match_loop_cases_induct)
  case (stop inc buy h b acc)
  then show ?case by (auto intro: spec_trade_sequence.no_trade)
next
  case (no_match inc buy h b acc er)
  then show ?case by (auto intro: spec_trade_sequence.no_trade)
next
  case (err inc buy h b acc p lv er h1 lv1 acc1)
  then show ?case by simp
next
  case (rec inc buy h b acc p lv h1 lv1 acc1)
  from rec.hyps obtain ts1 where 1: "acc1 = acc @ ts1"
    and s1: "spec_trade_sequence (book_symbol b) inc h ts1 h1"
    by (blast dest: match_level_trade_sequence)
  from rec.prems rec.hyps
  have "\<exists>ts. acc' = acc1 @ ts \<and>
          spec_trade_sequence (book_symbol (book_after_level buy (update_best_prices b) p lv1))
            inc h1 ts h'"
    by (intro rec.IH) simp
  then obtain ts2 where 2: "acc' = acc1 @ ts2"
    and s2: "spec_trade_sequence (book_symbol b) inc h1 ts2 h'"
    by auto
  from s1 s2 have "spec_trade_sequence (book_symbol b) inc h (ts1 @ ts2) h'"
    by (rule spec_trade_sequence_append)
  with 1 2 show ?case by auto
qed

lemma match_order_trade_sequence:
  "match_order h b inc = (Inr ts, h', b') \<Longrightarrow>
     \<exists>h''. spec_trade_sequence (book_symbol b) inc h ts h''"
  by (auto simp: match_order_def split: prod.splits option.splits if_splits sum.splits
      dest!: match_loop_trade_sequence)

lemma OrderBook_add_order_trade_sequence:
  assumes "OrderBook_add_order h b inc = (Inr ts, h', b')"
  shows "\<exists>h''. spec_trade_sequence (book_symbol b) inc h ts h''"
proof -
  let ?b1 = "b \<lparr> orders := (orders b)(order_id (h inc) \<mapsto> inc) \<rparr>"
  obtain m b2 where im: "is_marketable h ?b1 inc = (m, b2)"
    by (cases "is_marketable h ?b1 inc") auto
  then have sy: "book_symbol b2 = book_symbol b" by (auto dest: is_marketable_orders)
  show ?thesis
  proof (cases m)
    case True
    with assms im obtain h3 b3 where "match_order h b2 inc = (Inr ts, h3, b3)"
      by (auto simp: OrderBook_add_order_def Let_def split: if_splits prod.splits sum.splits)
    from match_order_trade_sequence [OF this] sy show ?thesis by simp
  next
    case False
    with assms im have "ts = []"
      by (auto simp: OrderBook_add_order_def Let_def split: if_splits)
    then show ?thesis by (auto intro: spec_trade_sequence.no_trade)
  qed
qed

lemma spec_trade_sequence_trades:
  "spec_trade_sequence sy inc h ts h' \<Longrightarrow> t \<in> set ts \<Longrightarrow>
     aggressor_side t = side (h inc) \<and> taker_order_id t = order_id (h inc) \<and>
     trade_symbol t = sy \<and>
     (\<exists>r. r \<noteq> inc \<and> maker_order_id t = order_id (h r) \<and> trade_price t = price (h r)) \<and>
     0 < trade_quantity t \<and> trade_quantity t \<le> remaining_quantity (h inc)"
proof (induction rule: spec_trade_sequence.induct)
  case (no_trade h)
  then show ?case by simp
next
  case (execution r q h resting incoming ts h')
  let ?h2 = "h(r := resting, inc := incoming)"
  have ev: "\<And>x. order_evolves (h x) (?h2 x)"
    using execution.hyps by (intro fill_twice_evolves) auto
  have q: "0 < q" "q \<le> remaining_quantity (h inc)"
    and rem: "remaining_quantity incoming = remaining_quantity (h inc) - q"
    using execution.hyps(4) by (auto dest!: fill_remaining)
  show ?case
  proof (cases "t \<in> set ts")
    case True
    from execution.IH [OF True] obtain r' where
      a: "aggressor_side t = side (?h2 inc)" "taker_order_id t = order_id (?h2 inc)"
         "trade_symbol t = sy" "0 < trade_quantity t"
         "trade_quantity t \<le> remaining_quantity (?h2 inc)"
      and r': "r' \<noteq> inc" "maker_order_id t = order_id (?h2 r')" "trade_price t = price (?h2 r')"
      by blast
    from ev [of inc] ev [of r'] a r' q rem execution.hyps(1) show ?thesis
      by (auto simp: order_evolves_def intro!: exI [of _ r'])
  next
    case False
    with execution.prems execution.hyps(1) q show ?thesis by auto
  qed
qed

section \<open>Time priority within a level\<close>

lemma match_level_filled_unchanged:
  "match_level inc sy h lv acc = (None, h', lv', acc') \<Longrightarrow>
     is_filled (h x) \<Longrightarrow> x \<noteq> inc \<Longrightarrow> h' x = h x"
proof (induction inc sy h lv acc rule: match_level_cases_induct)
  case (stop inc sy h lv acc)
  then show ?case by (auto simp: match_level_stop)
next
  case (err1 inc sy h lv acc r rs er)
  then show ?case by (simp add: match_level_err1)
next
  case (err2 inc sy h lv acc r rs resting er)
  then show ?case by (simp add: match_level_err2)
next
  case (rec inc sy h lv acc r rs resting incoming)
  from rec.hyps(4) have "0 < remaining_quantity (h r)"
    by (auto dest!: fill_remaining)
  with rec.prems have "x \<noteq> r" by (auto simp: is_filled_def)
  with rec.prems have same: "(h(r := resting, inc := incoming)) x = h x" by simp
  from rec.prems rec.hyps
  have "match_level inc sy (h(r := resting, inc := incoming))
          (level_after lv rs resting (trade_qty h inc r))
          (acc @ [make_trade sy (h inc) (h r)]) = (None, h', lv', acc')"
    by (simp add: match_level_rec)
  from rec.IH [OF this] rec.prems same show ?case by simp
qed

lemma match_level_fifo:
  "match_level inc sy h lv acc = (None, h', lv', acc') \<Longrightarrow>
     \<exists>k ts. acc' = acc @ ts
       \<and> level_orders lv' = drop k (level_orders lv)
       \<and> map maker_order_id ts = map (\<lambda>r. order_id (h r)) (take (length ts) (level_orders lv))
       \<and> k \<le> length ts \<and> length ts \<le> Suc k
       \<and> (\<forall>r \<in> set (take k (level_orders lv)). is_filled (h' r))"
proof (induction inc sy h lv acc rule: match_level_cases_induct)
  case (stop inc sy h lv acc)
  then have "acc' = acc @ [] \<and> level_orders lv' = drop 0 (level_orders lv)"
    by (auto simp: match_level_stop)
  then show ?case by (intro exI [of _ 0] exI [of _ "[]"]) simp
next
  case (err1 inc sy h lv acc r rs er)
  then show ?case by (simp add: match_level_err1)
next
  case (err2 inc sy h lv acc r rs resting er)
  then show ?case by (simp add: match_level_err2)
next
  case (rec inc sy h lv acc r rs resting incoming)
  let ?h2 = "h(r := resting, inc := incoming)"
  let ?lv2 = "level_after lv rs resting (trade_qty h inc r)"
  let ?t = "make_trade sy (h inc) (h r)"
  have ml: "match_level inc sy ?h2 ?lv2 (acc @ [?t]) = (None, h', lv', acc')"
    using rec.prems rec.hyps by (simp add: match_level_rec)
  have ids: "\<And>x. order_id (?h2 x) = order_id (h x)"
    using fill_twice_evolves [OF rec.hyps(4) rec.hyps(6) rec.hyps(3)]
    by (simp add: order_evolves_def)
  have maker: "maker_order_id ?t = order_id (h r)" by (simp add: make_trade_def)
  show ?case
  proof (cases "is_filled resting")
    case True
    then have lv2: "level_orders ?lv2 = rs" by (simp add: level_after_def)
    from rec.IH [OF ml] obtain k ts where
      acc': "acc' = (acc @ [?t]) @ ts" and dr: "level_orders lv' = drop k rs"
      and mk: "map maker_order_id ts = map (\<lambda>r. order_id (?h2 r)) (take (length ts) rs)"
      and kb: "k \<le> length ts" "length ts \<le> Suc k"
      and fl: "\<forall>x \<in> set (take k rs). is_filled (h' x)"
      unfolding lv2 by blast
    have mk': "map maker_order_id ts = map (\<lambda>r. order_id (h r)) (take (length ts) rs)"
      using mk by (simp only: ids)
    have "is_filled (?h2 r)" using True rec.hyps(3) by simp
    with match_level_filled_unchanged [OF ml, of r] rec.hyps(3) True
    have "is_filled (h' r)" by simp
    with acc' dr mk' kb fl maker rec.hyps(1) show ?thesis
      by (intro exI [of _ "Suc k"] exI [of _ "?t # ts"]) simp
  next
    case False
    then have lv2: "level_orders ?lv2 = r # rs"
      using rec.hyps(1) by (simp add: level_after_def)
    from rec.hyps(4) rec.hyps(6) False have "remaining_quantity incoming = 0"
      by (auto simp: is_filled_def trade_qty_def min_def dest!: fill_remaining split: if_splits)
    then have "match_level inc sy ?h2 ?lv2 (acc @ [?t]) = (None, ?h2, ?lv2, acc @ [?t])"
      by (intro match_level_stop) simp
    with ml have "acc' = acc @ [?t]" "lv' = ?lv2" by simp_all
    with lv2 maker rec.hyps(1) show ?thesis
      by (intro exI [of _ 0] exI [of _ "[?t]"]) simp
  qed
qed

section \<open>MatchingEngine\<close>

text \<open>
  A request is the dictionary passed to \<open>submit_order\<close>: a field is None when the
  key is missing (or, for price and order id, None). Quantity and price are numbers or
  strings; \<open>Decimal(str(x))\<close> of a number is the number, and of a string it is the
  library's parse of the string, a parameter (\<open>parse\<close>) of the model that returns
  None where \<open>Decimal\<close> raises InvalidOperation. \<open>str.upper\<close>/\<open>str.lower\<close> are
  modelled on ASCII.

  The state of the program is a \<open>World\<close>: the store of Order objects, the next unused
  reference (a constructor call makes a new object) and the engine. \<open>submit_order\<close>
  and \<open>cancel_order\<close> catch every exception and return an error response; the state
  they return is the one reached when the exception was raised. The subscriber lists
  are empty in the model: the two notification methods return at once when no callback
  is registered, and they catch what a callback raises.
\<close>

datatype pyval = PyNum decimal | PyStr string

record OrderRequest =
  req_symbol :: "string option"
  req_order_type :: "string option"
  req_side :: "string option"
  req_quantity :: "pyval option"
  req_price :: "pyval option"
  req_order_id :: "string option"

record MatchingEngine =
  order_books :: "string \<rightharpoonup> OrderBook"
  trades :: "Trade list"
  trade_history :: "(string \<times> Trade list) list"
  all_orders :: "string \<rightharpoonup> ref"
  total_orders_processed :: nat
  total_trades_executed :: nat

record World =
  heap :: store
  next_ref :: ref
  engine :: MatchingEngine

datatype reason =
    Exception py_error
  | OrderNotFound
  | CannotBeCancelled OrderStatus
  | FailedToCancel

datatype response =
    OrderResponse Order "Trade list"
  | CancelResponse Order
  | ErrorResponse reason

definition MatchingEngine_init :: MatchingEngine where
  "MatchingEngine_init = \<lparr> order_books = Map.empty, trades = [], trade_history = [],
     all_orders = Map.empty, total_orders_processed = 0, total_trades_executed = 0 \<rparr>"

definition str_upper :: "string \<Rightarrow> string" where
  "str_upper s = map (\<lambda>c. let n = (of_char c :: nat)
                          in if 97 \<le> n \<and> n \<le> 122 then char_of (n - 32) else c) s"

definition str_lower :: "string \<Rightarrow> string" where
  "str_lower s = map (\<lambda>c. let n = (of_char c :: nat)
                          in if 65 \<le> n \<and> n \<le> 90 then char_of (n + 32) else c) s"

definition OrderType_of :: "string \<Rightarrow> OrderType option" where
  "OrderType_of s =
     (if s = ''MARKET'' then Some MARKET else if s = ''LIMIT'' then Some LIMIT
      else if s = ''IOC'' then Some IOC else if s = ''FOK'' then Some FOK else None)"

definition OrderSide_of :: "string \<Rightarrow> OrderSide option" where
  "OrderSide_of s = (if s = ''BUY'' then Some BUY else if s = ''SELL'' then Some SELL else None)"

definition to_decimal :: "(string \<Rightarrow> decimal option) \<Rightarrow> pyval \<Rightarrow> decimal option" where
  "to_decimal parse v = (case v of PyNum d \<Rightarrow> Some d | PyStr s \<Rightarrow> parse s)"

definition create_order_from_request ::
  "(string \<Rightarrow> decimal option) \<Rightarrow> OrderRequest \<Rightarrow> string \<Rightarrow> py_error + Order" where
  "create_order_from_request parse request uuid =
     (let order_type_str = str_lower (case req_order_type request of None \<Rightarrow> [] | Some s \<Rightarrow> s);
          side_str = str_lower (case req_side request of None \<Rightarrow> [] | Some s \<Rightarrow> s)
      in case req_symbol request of
           None \<Rightarrow> Inl (ValueError ''Symbol is required'')
         | Some s \<Rightarrow>
            if s = [] then Inl (ValueError ''Symbol is required'')
            else if order_type_str \<notin> set [''market'', ''limit'', ''ioc'', ''fok'']
              then Inl (ValueError ''Invalid order type'')
            else if side_str \<notin> set [''buy'', ''sell'']
              then Inl (ValueError ''Invalid side'')
            else (case req_quantity request of
                None \<Rightarrow> Inl (ValueError ''Quantity must be positive'')
              | Some (PyStr qs) \<Rightarrow>
                  if qs = [] then Inl (ValueError ''Quantity must be positive'')
                  else Inl TypeError
              | Some (PyNum q) \<Rightarrow>
                  if q = 0 \<or> q \<le> 0 then Inl (ValueError ''Quantity must be positive'')
                  else (case (OrderType_of (str_upper order_type_str),
                              OrderSide_of (str_upper side_str)) of
                      (Some ot, Some sd) \<Rightarrow>
                        if ot \<noteq> MARKET then
                          (case req_price request of
                             None \<Rightarrow> Inl (ValueError ''Price is required'')
                           | Some pv \<Rightarrow>
                              (case to_decimal parse pv of
                                 None \<Rightarrow> Inl (ValueError ''Invalid price format'')
                               | Some p \<Rightarrow>
                                   if p \<le> 0 then Inl (ValueError ''Invalid price format'')
                                   else Order_init (str_upper s) ot sd q (Some p)
                                          (req_order_id request) uuid))
                        else Order_init (str_upper s) ot sd q None (req_order_id request) uuid
                    | _ \<Rightarrow> Inl (ValueError ''not a valid enum value''))))"

definition get_or_create_orderbook ::
  "(string \<rightharpoonup> OrderBook) \<Rightarrow> string \<Rightarrow> OrderBook \<times> (string \<rightharpoonup> OrderBook)" where
  "get_or_create_orderbook books sy =
     (case books sy of
        None \<Rightarrow> (OrderBook_init sy, books(sy \<mapsto> OrderBook_init sy))
      | Some b \<Rightarrow> (b, books))"

definition store_trade :: "Trade \<Rightarrow> MatchingEngine \<Rightarrow> MatchingEngine" where
  "store_trade t e =
     e \<lparr> trades := trades e @ [t],
         trade_history :=
           AList.update (trade_symbol t)
             ((case map_of (trade_history e) (trade_symbol t) of None \<Rightarrow> [] | Some l \<Rightarrow> l) @ [t])
             (trade_history e) \<rparr>"

definition submit_order ::
  "(string \<Rightarrow> decimal option) \<Rightarrow> World \<Rightarrow> OrderRequest \<Rightarrow> string \<Rightarrow> response \<times> World" where
  "submit_order parse w request uuid =
     (case create_order_from_request parse request uuid of
        Inl e \<Rightarrow> (ErrorResponse (Exception e), w)
      | Inr od \<Rightarrow>
          (let r = next_ref w;
               h1 = (heap w)(r := od);
               w1 = w \<lparr> heap := h1, next_ref := Suc r \<rparr>
           in if remaining_quantity od \<le> 0
              then (ErrorResponse (Exception (ValueError ''Order quantity must be positive'')), w1)
              else
               (case get_or_create_orderbook (order_books (engine w)) (symbol od) of
                  (order_book, books1) \<Rightarrow>
                    (let e1 = (engine w) \<lparr> order_books := books1,
                                all_orders := (all_orders (engine w))(order_id od \<mapsto> r) \<rparr>
                     in case OrderBook_add_order h1 order_book r of
                          (Inl err, h2, b2) \<Rightarrow>
                            (ErrorResponse (Exception err),
                             \<lparr> heap = h2, next_ref = Suc r,
                               engine = e1 \<lparr> order_books := books1(symbol od \<mapsto> b2) \<rparr> \<rparr>)
                        | (Inr new_trades, h2, b2) \<Rightarrow>
                            (let e2 = e1 \<lparr> order_books := books1(symbol od \<mapsto> b2),
                                        total_orders_processed := total_orders_processed e1 + 1,
                                        total_trades_executed :=
                                          total_trades_executed e1 + length new_trades \<rparr>;
                                 e3 = fold store_trade new_trades e2
                             in (OrderResponse (h2 r) new_trades,
                                 \<lparr> heap = h2, next_ref = Suc r, engine = e3 \<rparr>))))))"

definition MatchingEngine_cancel_order :: "World \<Rightarrow> string \<Rightarrow> response \<times> World" where
  "MatchingEngine_cancel_order w oid =
     (case all_orders (engine w) oid of
        None \<Rightarrow> (ErrorResponse OrderNotFound, w)
      | Some r \<Rightarrow>
          if status (heap w r) \<in> {FILLED, CANCELLED}
          then (ErrorResponse (CannotBeCancelled (status (heap w r))), w)
          else (case order_books (engine w) (symbol (heap w r)) of
              None \<Rightarrow> (ErrorResponse FailedToCancel, w)
            | Some order_book \<Rightarrow>
                (case OrderBook_cancel_order (heap w) order_book oid of
                   (res, h1, b1) \<Rightarrow>
                     (let w1 = w \<lparr> heap := h1,
                                   engine := (engine w) \<lparr> order_books :=
                                     (order_books (engine w))(symbol (heap w r) \<mapsto> b1) \<rparr> \<rparr>
                      in case res of
                           Inl e \<Rightarrow> (ErrorResponse (Exception e), w1)
                         | Inr cancelled \<Rightarrow>
                             if cancelled then (CancelResponse (h1 r), w1)
                             else (ErrorResponse FailedToCancel, w1)))))"

text \<open>The states an engine goes through, from its construction, by any calls.\<close>

inductive engine_reachable :: "World \<Rightarrow> bool" where
  init: "engine_reachable \<lparr> heap = h, next_ref = 0, engine = MatchingEngine_init \<rparr>"
| submit: "engine_reachable w \<Longrightarrow> engine_reachable (snd (submit_order parse w request uuid))"
| cancel: "engine_reachable w \<Longrightarrow> engine_reachable (snd (MatchingEngine_cancel_order w oid))"

section \<open>Engine bookkeeping\<close>

definition history_of :: "MatchingEngine \<Rightarrow> string \<Rightarrow> Trade list" where
  "history_of e s = (case map_of (trade_history e) s of None \<Rightarrow> [] | Some l \<Rightarrow> l)"

definition history_total :: "MatchingEngine \<Rightarrow> nat" where
  "history_total e = sum_list (map (\<lambda>(s, l). length l) (trade_history e))"

definition counters_consistent :: "MatchingEngine \<Rightarrow> bool" where
  "counters_consistent e \<longleftrightarrow>
     total_trades_executed e = length (trades e) \<and> length (trades e) = history_total e"

text \<open>The states an Order object goes through, from its construction.\<close>

inductive order_reachable :: "Order \<Rightarrow> bool" where
  created: "Order_init sy ot sd q p oid uuid = Inr od \<Longrightarrow> order_reachable od"
| filled: "order_reachable od \<Longrightarrow> fill od q p = Inr od' \<Longrightarrow> order_reachable od'"
| cancelled: "order_reachable od \<Longrightarrow> cancel od = Inr od' \<Longrightarrow> order_reachable od'"

definition no_rejected :: "World \<Rightarrow> bool" where
  "no_rejected w \<longleftrightarrow>
     (\<forall>r < next_ref w. status (heap w r) \<noteq> REJECTED) \<and>
     (\<forall>oid r. all_orders (engine w) oid = Some r \<longrightarrow> r < next_ref w)"

lemma Order_init_status: "Order_init sy ot sd q p oid uuid = Inr od \<Longrightarrow> status od = PENDING"
  by (auto simp: Order_init_def split: if_splits option.splits)

lemma order_reachable_not_rejected: "order_reachable od \<Longrightarrow> status od \<noteq> REJECTED"
proof (induction rule: order_reachable.induct)
  case (created sy ot sd q p oid uuid od)
  then show ?case by (simp add: Order_init_status)
next
  case (filled od q p od')
  then show ?case by (auto dest: fill_evolves simp: order_evolves_def)
next
  case (cancelled od od')
  then show ?case by (auto dest: cancel_evolves simp: order_evolves_def)
qed

lemma create_order_status:
  "create_order_from_request parse request uuid = Inr od \<Longrightarrow> status od = PENDING"
  by (auto simp: create_order_from_request_def Let_def
      split: option.splits if_splits pyval.splits prod.splits dest: Order_init_status)

lemma update_history_total:
  "sum_list (map (\<lambda>(s, l). length l)
       (AList.update k ((case map_of al k of None \<Rightarrow> [] | Some l \<Rightarrow> l) @ [t]) al))
     = Suc (sum_list (map (\<lambda>(s, l). length l) al))"
  by (induction al) auto

lemma store_trade_fields [simp]:
  "trades (store_trade t e) = trades e @ [t]"
  "total_trades_executed (store_trade t e) = total_trades_executed e"
  "total_orders_processed (store_trade t e) = total_orders_processed e"
  "all_orders (store_trade t e) = all_orders e"
  "order_books (store_trade t e) = order_books e"
  "history_total (store_trade t e) = Suc (history_total e)"
  "history_of (store_trade t e) s
     = (if s = trade_symbol t then history_of e s @ [t] else history_of e s)"
  by (simp_all add: store_trade_def history_total_def history_of_def update_history_total
      update_conv')

lemma fold_store_trade_fields [simp]:
  "trades (fold store_trade ts e) = trades e @ ts"
  "total_trades_executed (fold store_trade ts e) = total_trades_executed e"
  "total_orders_processed (fold store_trade ts e) = total_orders_processed e"
  "all_orders (fold store_trade ts e) = all_orders e"
  "order_books (fold store_trade ts e) = order_books e"
  "history_total (fold store_trade ts e) = history_total e + length ts"
  "history_of (fold store_trade ts e) s
     = history_of e s @ filter (\<lambda>t. trade_symbol t = s) ts"
  by (induction ts arbitrary: e) simp_all

lemma history_frame [simp]:
  "history_total (e \<lparr> order_books := x \<rparr>) = history_total e"
  "history_total (e \<lparr> all_orders := y \<rparr>) = history_total e"
  "history_total (e \<lparr> total_orders_processed := n \<rparr>) = history_total e"
  "history_total (e \<lparr> total_trades_executed := m \<rparr>) = history_total e"
  "history_of (e \<lparr> order_books := x \<rparr>) = history_of e"
  "history_of (e \<lparr> all_orders := y \<rparr>) = history_of e"
  "history_of (e \<lparr> total_orders_processed := n \<rparr>) = history_of e"
  "history_of (e \<lparr> total_trades_executed := m \<rparr>) = history_of e"
  by (simp_all add: history_total_def history_of_def fun_eq_iff)

lemma submit_order_bookkeeping:
  assumes "submit_order parse w request uuid = (res, w')"
  shows "(case res of
            OrderResponse od ts \<Rightarrow>
              trades (engine w') = trades (engine w) @ ts
              \<and> (\<forall>s. history_of (engine w') s
                       = history_of (engine w) s @ filter (\<lambda>t. trade_symbol t = s) ts)
              \<and> history_total (engine w') = history_total (engine w) + length ts
              \<and> total_trades_executed (engine w') = total_trades_executed (engine w) + length ts
              \<and> total_orders_processed (engine w') = total_orders_processed (engine w) + 1
              \<and> (\<exists>od0. create_order_from_request parse request uuid = Inr od0)
          | _ \<Rightarrow>
              trades (engine w') = trades (engine w)
              \<and> trade_history (engine w') = trade_history (engine w)
              \<and> total_trades_executed (engine w') = total_trades_executed (engine w)
              \<and> total_orders_processed (engine w') = total_orders_processed (engine w))"
  using assms
  by (auto simp: submit_order_def Let_def
      split: sum.splits if_splits prod.splits)

lemma cancel_order_bookkeeping:
  assumes "MatchingEngine_cancel_order w oid = (res, w')"
  shows "trades (engine w') = trades (engine w)
       \<and> trade_history (engine w') = trade_history (engine w)
       \<and> total_trades_executed (engine w') = total_trades_executed (engine w)
       \<and> total_orders_processed (engine w') = total_orders_processed (engine w)
       \<and> all_orders (engine w') = all_orders (engine w)
       \<and> next_ref w' = next_ref w"
  using assms
  by (auto simp: MatchingEngine_cancel_order_def Let_def
      split: option.splits sum.splits if_splits prod.splits)

lemma MatchingEngine_cancel_order_evolves:
  assumes "MatchingEngine_cancel_order w oid = (res, w')"
  shows "order_evolves (heap w x) (heap w' x)"
proof (cases "all_orders (engine w) oid")
  case None
  with assms show ?thesis by (simp add: MatchingEngine_cancel_order_def)
next
  case (Some r)
  show ?thesis
  proof (cases "status (heap w r) \<in> {FILLED, CANCELLED}
                 \<or> order_books (engine w) (symbol (heap w r)) = None")
    case True
    with assms Some show ?thesis
      by (auto simp: MatchingEngine_cancel_order_def split: if_splits)
  next
    case False
    then obtain ob where ob: "order_books (engine w) (symbol (heap w r)) = Some ob" by auto
    obtain cres h1 b1 where c: "OrderBook_cancel_order (heap w) ob oid = (cres, h1, b1)"
      by (cases "OrderBook_cancel_order (heap w) ob oid") auto
    from assms Some False ob c have "heap w' = h1"
      by (auto simp: MatchingEngine_cancel_order_def Let_def split: sum.splits if_splits)
    with OrderBook_cancel_order_evolves [OF c] show ?thesis by simp
  qed
qed

lemma engine_reachable_consistent: "engine_reachable w \<Longrightarrow> counters_consistent (engine w)"
proof (induction rule: engine_reachable.induct)
  case (init h)
  show ?case
    by (simp add: counters_consistent_def MatchingEngine_init_def history_total_def)
next
  case (submit w parse request uuid)
  obtain res w' where s: "submit_order parse w request uuid = (res, w')"
    by (cases "submit_order parse w request uuid") auto
  from submit_order_bookkeeping [OF s] submit.IH show ?case
    by (cases res) (auto simp: s counters_consistent_def history_total_def)
next
  case (cancel w oid)
  obtain res w' where s: "MatchingEngine_cancel_order w oid = (res, w')"
    by (cases "MatchingEngine_cancel_order w oid") auto
  from cancel_order_bookkeeping [OF s] cancel.IH show ?case
    by (auto simp: s counters_consistent_def history_total_def)
qed

lemma engine_reachable_no_rejected: "engine_reachable w \<Longrightarrow> no_rejected w"
proof (induction rule: engine_reachable.induct)
  case (init h)
  show ?case by (simp add: no_rejected_def MatchingEngine_init_def)
next
  case (submit w parse request uuid)
  show ?case
  proof (cases "create_order_from_request parse request uuid")
    case (Inl e)
    with submit.IH show ?thesis by (simp add: submit_order_def)
  next
    case (Inr od)
    let ?r = "next_ref w"
    let ?h1 = "(heap w)(?r := od)"
    have h1: "\<forall>r < Suc ?r. status (?h1 r) \<noteq> REJECTED"
      using submit.IH create_order_status [OF Inr] by (auto simp: no_rejected_def less_Suc_eq)
    have ao: "\<forall>oid r. ((all_orders (engine w))(order_id od \<mapsto> ?r)) oid = Some r \<longrightarrow> r < Suc ?r"
      using submit.IH by (auto simp: no_rejected_def less_Suc_eq)
    have ao0: "\<forall>oid r. all_orders (engine w) oid = Some r \<longrightarrow> r < Suc ?r"
      using submit.IH by (auto simp: no_rejected_def less_Suc_eq)
    obtain ob books1 where g: "get_or_create_orderbook (order_books (engine w)) (symbol od) = (ob, books1)"
      by (cases "get_or_create_orderbook (order_books (engine w)) (symbol od)") auto
    obtain res h2 b2 where a: "OrderBook_add_order ?h1 ob ?r = (res, h2, b2)"
      by (cases "OrderBook_add_order ?h1 ob ?r") auto
    have h2: "\<forall>r < Suc ?r. status (h2 r) \<noteq> REJECTED"
      using h1 OrderBook_add_order_evolves [OF a] by (auto simp: order_evolves_def)
    from Inr g a h1 h2 ao ao0 show ?thesis
      by (cases res) (auto simp: submit_order_def Let_def no_rejected_def)
  qed
next
  case (cancel w oid)
  obtain res w' where s: "MatchingEngine_cancel_order w oid = (res, w')"
    by (cases "MatchingEngine_cancel_order w oid") auto
  have "\<forall>r. status (heap w r) \<noteq> REJECTED \<longrightarrow> status (heap w' r) \<noteq> REJECTED"
    using MatchingEngine_cancel_order_evolves [OF s] by (simp add: order_evolves_def)
  with cancel_order_bookkeeping [OF s] cancel.IH show ?case
    by (auto simp: s no_rejected_def)
qed

section \<open>Scenarios\<close>

text \<open>
  Concrete runs of one book. \<open>place_order\<close> is what a caller of the book does with a new
  order: construct it with \<open>Order.__init__\<close>, which makes a new object (here: stored at
  a reference the caller chooses, not yet used), and pass it to \<open>add_order\<close>.
  \<open>resting_orders\<close> lists, for each price level of one side in dictionary order, its
  price, its queue with the remaining quantity of each order, and its \<open>total_quantity\<close>.
\<close>

type_synonym book_state = "(py_error + Trade list) \<times> store \<times> OrderBook"

definition blank_order :: Order where
  "blank_order = \<lparr> symbol = [], order_id = [], order_type = LIMIT, side = BUY, quantity = 0,
     price = 0, filled_quantity = 0, remaining_quantity = 0, status = PENDING, fills = [] \<rparr>"

definition fresh_book :: book_state where
  "fresh_book = (Inr [], (\<lambda>_. blank_order), OrderBook_init ''BTC-USDT'')"

definition place_order ::
  "ref \<Rightarrow> string \<Rightarrow> OrderSide \<Rightarrow> OrderType \<Rightarrow> decimal \<Rightarrow> decimal \<Rightarrow> book_state \<Rightarrow> book_state" where
  "place_order r oid sd ot q p st =
     (case st of (res, h, b) \<Rightarrow>
        (case Order_init (book_symbol b) ot sd q (Some p) (Some oid) [] of
           Inl e \<Rightarrow> (Inl e, h, b)
         | Inr od \<Rightarrow> OrderBook_add_order (h(r := od)) b r))"

definition resting_orders ::
  "store \<Rightarrow> (decimal \<times> PriceLevel) list \<Rightarrow> (decimal \<times> (ref \<times> decimal) list \<times> decimal) list" where
  "resting_orders h levels =
     map (\<lambda>(p, lv). (p, map (\<lambda>r. (r, remaining_quantity (h r))) (level_orders lv),
                       total_quantity lv)) levels"

text \<open>Scenario 1 of the specification: two bids at 50000, then a sell at 49999.\<close>

definition scenario_priority :: book_state where
  "scenario_priority =
     place_order 3 ''O3'' SELL LIMIT 1 49999
       (place_order 2 ''O2'' BUY LIMIT 1 50000
         (place_order 1 ''O1'' BUY LIMIT 1 50000 fresh_book))"

text \<open>Scenario 4: a resting sell of 0.5 at 50100, then BUY FOK 1.0 at 50200.\<close>

definition scenario_fok :: book_state where
  "scenario_fok =
     place_order 2 ''O2'' BUY FOK 1 50200
       (place_order 1 ''O1'' SELL LIMIT (1/2) 50100 fresh_book)"

text \<open>Scenario 3: BUY IOC 1.0 at 49000 into an empty book.\<close>

definition scenario_ioc :: book_state where
  "scenario_ioc = place_order 1 ''O1'' BUY IOC 1 49000 fresh_book"

text \<open>
  A sell at 100 is bought in full at 100; then a second sell at 100 and a second buy at
  100 arrive.
\<close>

definition scenario_crossed :: book_state where
  "scenario_crossed =
     place_order 4 ''O4'' BUY LIMIT 1 100
       (place_order 3 ''O3'' SELL LIMIT 1 100
         (place_order 2 ''O2'' BUY LIMIT 1 100
           (place_order 1 ''O1'' SELL LIMIT 1 100 fresh_book)))"

text \<open>
  The same start, then a sell at 110, a sell at 100 and a buy at 105.
\<close>

definition scenario_trade_through :: book_state where
  "scenario_trade_through =
     place_order 5 ''O5'' BUY LIMIT 1 105
       (place_order 4 ''O4'' SELL LIMIT 1 100
         (place_order 3 ''O3'' SELL LIMIT 1 110
           (place_order 2 ''O2'' BUY LIMIT 1 100
             (place_order 1 ''O1'' SELL LIMIT 1 100 fresh_book))))"

text \<open>
  Seven orders of 1 at the price 100: sell, buy, sell, buy, sell, sell (the state before
  the last call), then buy.
\<close>

definition scenario_priority_lost_before :: book_state where
  "scenario_priority_lost_before =
     place_order 6 ''O6'' SELL LIMIT 1 100
       (place_order 5 ''O5'' SELL LIMIT 1 100
         (place_order 4 ''O4'' BUY LIMIT 1 100
           (place_order 3 ''O3'' SELL LIMIT 1 100
             (place_order 2 ''O2'' BUY LIMIT 1 100
               (place_order 1 ''O1'' SELL LIMIT 1 100 fresh_book)))))"

definition scenario_priority_lost :: book_state where
  "scenario_priority_lost = place_order 7 ''O7'' BUY LIMIT 1 100 scenario_priority_lost_before"

definition scenario_one_ask :: book_state where
  "scenario_one_ask = place_order 1 ''O1'' SELL LIMIT 1 50000 fresh_book"

definition constructed :: "py_error + Order \<Rightarrow> Order" where
  "constructed x = (case x of Inl e \<Rightarrow> blank_order | Inr od \<Rightarrow> od)"

definition empty_world :: World where
  "empty_world = \<lparr> heap = (\<lambda>_. blank_order), next_ref = 0, engine = MatchingEngine_init \<rparr>"

definition limit_request :: "string \<Rightarrow> decimal \<Rightarrow> decimal \<Rightarrow> OrderRequest" where
  "limit_request sd q p =
     \<lparr> req_symbol = Some ''btc-usdt'', req_order_type = Some ''limit'', req_side = Some sd,
       req_quantity = Some (PyNum q), req_price = Some (PyNum p), req_order_id = None \<rparr>"

definition market_request :: "string \<Rightarrow> decimal \<Rightarrow> OrderRequest" where
  "market_request sd q =
     \<lparr> req_symbol = Some ''BTC-USDT'', req_order_type = Some ''market'', req_side = Some sd,
       req_quantity = Some (PyNum q), req_price = None, req_order_id = None \<rparr>"

definition world_one_ask :: World where
  "world_one_ask = snd (submit_order (\<lambda>s. None) empty_world (limit_request ''sell'' 1 100) ''u1'')"

definition world_after_trade :: World where
  "world_after_trade =
     snd (submit_order (\<lambda>s. None) world_one_ask (limit_request ''buy'' 2 101) ''u2'')"

section \<open>Claims\<close>

text \<open>
  C1. A MARKET order with positive quantity and no price cannot even be constructed:
  \<open>Order.__init__\<close> converts the price with \<open>Decimal(str(price))\<close> unconditionally,
  which raises \<open>InvalidOperation\<close> for \<open>None\<close>. The engine builds every market order
  with price None, so a market request (here: buy 0.5 against a resting sell) is
  answered with that error and never reaches \<open>add_order\<close>. The claim says construction
  succeeds.
\<close>

theorem C1_market_order_construction_raises:
  "Order_init ''BTC-USDT'' MARKET BUY (1/2) None None ''uuid-1'' = Inl InvalidOperation
   \<and> fst (submit_order (\<lambda>s. None) world_one_ask (market_request ''buy'' (1/2)) ''u2'')
       = ErrorResponse (Exception InvalidOperation)"
  by code_simp

text \<open>
  C2. FOK is not all-or-nothing in the code: \<open>_match_order\<close> has no pre-scan, it matches
  a FOK order like any other and cancels it afterwards if a remainder is left. In
  scenario 4 (resting SELL 0.5 at 50100, then BUY FOK 1.0 at 50200) \<open>add_order\<close>
  returns one trade of 0.5 at 50100, the FOK order ends CANCELLED with 0.5 filled, and
  the resting sell is FILLED and gone from its level. The claim says: no trades, zero
  fills, book unchanged.
\<close>

theorem C2_fok_partial_fill:
  "(case scenario_fok of (res, h, b) \<Rightarrow>
      res = Inr [\<lparr> trade_symbol = ''BTC-USDT'', trade_price = 50100, trade_quantity = 1/2,
                   maker_order_id = ''O1'', taker_order_id = ''O2'', aggressor_side = BUY \<rparr>]
      \<and> status (h 2) = CANCELLED \<and> filled_quantity (h 2) = 1/2
      \<and> status (h 1) = FILLED \<and> remaining_quantity (h 1) = 0
      \<and> resting_orders h (ask_levels b) = [(50100, [], 1/2)])"
  by code_simp

text \<open>
  C3. \<open>total_quantity\<close> is wrong after a fully filled maker is popped from a level that
  holds more orders: \<open>pop_first_order\<close> subtracts the popped order's
  \<open>remaining_quantity\<close>, which \<open>fill\<close> has already set to 0. After scenario 1 the bid
  level at 50000 holds only O2 (reference 2) with remaining quantity 1, and its
  \<open>total_quantity\<close> is 2, which is also the quantity \<open>get_depth\<close> reports for the
  best bid. The claim says it equals the sum, 1.
\<close>

theorem C3_total_quantity_after_pop:
  "(case scenario_priority of (res, h, b) \<Rightarrow>
      resting_orders h (bid_levels b) = [(50000, [(2, 1)], 2)]
      \<and> fst (get_depth b 10) = ([(50000, 2)], []))"
  by code_simp

text \<open>
  C4. An IOC order that is not marketable on arrival is never cancelled: \<open>add_order\<close>
  calls \<open>_match_order\<close>, where the IOC cancellation lives, only for a marketable order.
  BUY IOC 1.0 at 49000 into an empty book yields no trades and leaves the book's levels
  empty, but the order stays PENDING with its full quantity. The claim says CANCELLED.
\<close>

theorem C4_ioc_not_cancelled:
  "(case scenario_ioc of (res, h, b) \<Rightarrow>
      res = Inr [] \<and> status (h 1) = PENDING \<and> remaining_quantity (h 1) = 1
      \<and> bid_levels b = [] \<and> ask_levels b = [])"
  by code_simp

text \<open>
  C5, as stated, fails. The book never deletes from its id map: \<open>add_order\<close> stores the
  incoming order under its id before matching, and neither \<open>_match_order\<close>,
  \<open>pop_first_order\<close> nor \<open>cancel_order\<close> removes an entry. After scenario 1 the id
  map still holds O1 (the maker, fully filled and popped) and O3 (the incoming order,
  fully matched on arrival), while the only order resting in any level is O2.
\<close>

theorem C5_id_map_keeps_non_resting_orders:
  "(case scenario_priority of (res, hs, bs) \<Rightarrow>
      orders bs ''O1'' = Some 1 \<and> status (hs 1) = FILLED
      \<and> orders bs ''O3'' = Some 3 \<and> status (hs 3) = FILLED
      \<and> resting_orders hs (bid_levels bs) = [(50000, [(2, 1)], 2)]
      \<and> resting_orders hs (ask_levels bs) = [])"
  by code_simp

text \<open>
  C5, amended. The id map is an index of every order the book was given: after
  \<open>add_order\<close> returns it is the previous map with the incoming order recorded under
  its \<open>order_id\<close> (unchanged when the symbol check rejects the order), whatever the
  order's type and whether it matched, rested or neither; \<open>cancel_order\<close> leaves the
  map as it is. So no entry is ever deleted, and an entry changes only when a later
  order reuses the same id.
\<close>

theorem C5_id_map_only_grows:
  "orders (snd (snd (OrderBook_add_order h b r)))
     = (if symbol (h r) = book_symbol b then (orders b)(order_id (h r) \<mapsto> r) else orders b)
   \<and> orders (snd (snd (OrderBook_cancel_order h b oid))) = orders b"
  by (simp add: OrderBook_add_order_orders OrderBook_cancel_order_orders)

text \<open>
  C6. The trades returned by \<open>add_order\<close> are a sequence of executions in the sense of
  the specification: each trade has the price of its maker, the quantity
  \<open>min(incoming.remaining, maker.remaining)\<close> as both stand at the time of that match,
  and the side of the incoming order as aggressor side. Since a fill changes neither the
  price, the id nor the side of an order, every trade's price is also the price that
  some other order (its maker) has in the store before the call.
\<close>

theorem C6_trades_at_maker_price:
  assumes "OrderBook_add_order h b inc = (Inr ts, h', b')"
  shows "(\<exists>h''. spec_trade_sequence (book_symbol b) inc h ts h'')
       \<and> (\<forall>t \<in> set ts.
             aggressor_side t = side (h inc) \<and> taker_order_id t = order_id (h inc)
             \<and> (\<exists>r. r \<noteq> inc \<and> maker_order_id t = order_id (h r) \<and> trade_price t = price (h r)))"
proof -
  from OrderBook_add_order_trade_sequence [OF assms]
  obtain h'' where seq: "spec_trade_sequence (book_symbol b) inc h ts h''" ..
  then have "\<forall>t \<in> set ts.
             aggressor_side t = side (h inc) \<and> taker_order_id t = order_id (h inc)
             \<and> (\<exists>r. r \<noteq> inc \<and> maker_order_id t = order_id (h r) \<and> trade_price t = price (h r))"
    by (blast dest: spec_trade_sequence_trades)
  with seq show ?thesis by blast
qed

text \<open>
  C6, witness: scenario 2 of the specification (price improvement). A sell of 1 rests at
  50000; a buy of 1 at 50100 trades at 50000, the maker's price.
\<close>

theorem C6_trades_at_maker_price_witness:
  "fst (OrderBook_add_order
          ((fst (snd scenario_one_ask))
             (2 := constructed (Order_init ''BTC-USDT'' LIMIT BUY 1 (Some 50100) (Some ''O2'') [])))
          (snd (snd scenario_one_ask)) 2)
     = Inr [\<lparr> trade_symbol = ''BTC-USDT'', trade_price = 50000, trade_quantity = 1,
               maker_order_id = ''O1'', taker_order_id = ''O2'', aggressor_side = BUY \<rparr>]
   \<and> (\<exists>h''. spec_trade_sequence ''BTC-USDT'' 2
          ((fst (snd scenario_one_ask))
             (2 := constructed (Order_init ''BTC-USDT'' LIMIT BUY 1 (Some 50100) (Some ''O2'') [])))
          [\<lparr> trade_symbol = ''BTC-USDT'', trade_price = 50000, trade_quantity = 1,
              maker_order_id = ''O1'', taker_order_id = ''O2'', aggressor_side = BUY \<rparr>] h'')"
proof -
  let ?h = "(fst (snd scenario_one_ask))
             (2 := constructed (Order_init ''BTC-USDT'' LIMIT BUY 1 (Some 50100) (Some ''O2'') []))"
  let ?b = "snd (snd scenario_one_ask)"
  let ?T = "\<lparr> trade_symbol = ''BTC-USDT'', trade_price = 50000, trade_quantity = 1,
               maker_order_id = ''O1'', taker_order_id = ''O2'', aggressor_side = BUY \<rparr>"
  have r: "fst (OrderBook_add_order ?h ?b 2) = Inr [?T]" by code_simp
  have sy: "book_symbol ?b = ''BTC-USDT''" by code_simp
  from r obtain h' b' where "OrderBook_add_order ?h ?b 2 = (Inr [?T], h', b')"
    by (cases "OrderBook_add_order ?h ?b 2") auto
  from C6_trades_at_maker_price [OF this] r sy show ?thesis by simp
qed

text \<open>
  C7. \<open>add_order\<close> can leave the book crossed. When matching empties a level,
  \<open>_match_order\<close> calls \<open>_remove_empty_price_level\<close> with the incoming order's side
  instead of the emptied level's side, so the empty level stays in its dictionary. Its
  heap entry is popped as stale by the next best-price query; a later order at that
  price joins the existing level without a heap entry and is invisible to
  \<open>get_best_ask\<close> / \<open>get_best_bid\<close>. After the four orders of \<open>scenario_crossed\<close>
  the last call returns no trade, a bid of 1 rests at 100 and an ask of 1 rests at 100:
  both sides are non-empty, the best bid is 100, the lowest resting ask is 100
  (\<open>get_best_ask\<close> answers None, \<open>get_depth\<close> shows a bid and an ask at 100).
  In \<open>scenario_trade_through\<close> both best prices are reported, 105 and 110, while a
  sell of 1 rests at 100 below the bid that rests at 105. The claim says
  best bid < best ask.
\<close>

theorem C7_crossed_book:
  "(case scenario_crossed of (res, h, b) \<Rightarrow>
      res = Inr []
      \<and> resting_orders h (bid_levels b) = [(100, [(4, 1)], 1)]
      \<and> resting_orders h (ask_levels b) = [(100, [(3, 1)], 2)]
      \<and> fst (get_best_bid b) = Some 100 \<and> fst (get_best_ask b) = None
      \<and> fst (get_depth b 10) = ([(100, 1)], [(100, 2)]))
   \<and> (case scenario_trade_through of (res, h, b) \<Rightarrow>
      res = Inr []
      \<and> resting_orders h (bid_levels b) = [(105, [(5, 1)], 1)]
      \<and> resting_orders h (ask_levels b) = [(100, [(4, 1)], 2), (110, [(3, 1)], 1)]
      \<and> fst (get_best_bid b) = Some 105 \<and> fst (get_best_ask b) = Some 110
      \<and> fst (get_depth b 10) = ([(105, 1)], [(100, 2), (110, 1)]))"
  by code_simp

text \<open>
  C8. Matching through \<open>add_order\<close> does not always consume the earliest order at a
  price first. The matching loop over one level takes the head of its queue
  (\<open>match_level_fifo\<close>), and scenario 1 runs as the claim says: one trade of 1 at
  50000 with maker O1 and taker O3, O1 FILLED, O2 PENDING with remaining 1, best bid
  50000. But the wrong side flag that \<open>_match_order\<close> passes to
  \<open>_remove_empty_price_level\<close> can delete a level that still holds a resting order.
  In \<open>scenario_priority_lost\<close> seven orders of 1 at 100 arrive: sell O1, buy O2 (they
  trade; the emptied ask level stays and its heap entry goes stale), sell O3 (joins that
  level, with no heap entry), buy O4 (rests, O3 being invisible), sell O5 (trades with
  O4; emptying the bid level at 100 deletes the ask level at 100, with O3 in it), sell
  O6 (a new ask level), buy O7. The last call trades O7 against O6, while the sell O3,
  placed at the same price before O6 and never cancelled, is in no level any more and
  stays PENDING with remaining 1. The claim says the earliest inserted order at a price
  is consumed first.
\<close>

theorem C8_earlier_order_passed_over:
  "(case scenario_priority_lost_before of (res, h, b) \<Rightarrow>
      status (h 3) = PENDING \<and> remaining_quantity (h 3) = 1
      \<and> status (h 6) = PENDING \<and> remaining_quantity (h 6) = 1
      \<and> orders b ''O3'' = Some 3
      \<and> resting_orders h (ask_levels b) = [(100, [(6, 1)], 1)])
   \<and> (case scenario_priority_lost of (res, h, b) \<Rightarrow>
      res = Inr [\<lparr> trade_symbol = ''BTC-USDT'', trade_price = 100, trade_quantity = 1,
                   maker_order_id = ''O6'', taker_order_id = ''O7'', aggressor_side = BUY \<rparr>]
      \<and> status (h 6) = FILLED
      \<and> status (h 3) = PENDING \<and> remaining_quantity (h 3) = 1
      \<and> orders b ''O3'' = Some 3
      \<and> resting_orders h (bid_levels b) = []
      \<and> resting_orders h (ask_levels b) = [(100, [], 1)])
   \<and> (case scenario_priority of (res, h, b) \<Rightarrow>
      res = Inr [\<lparr> trade_symbol = ''BTC-USDT'', trade_price = 50000, trade_quantity = 1,
                   maker_order_id = ''O1'', taker_order_id = ''O3'', aggressor_side = SELL \<rparr>]
      \<and> status (h 1) = FILLED
      \<and> status (h 2) = PENDING \<and> remaining_quantity (h 2) = 1
      \<and> fst (get_best_bid b) = Some 50000)"
  by code_simp

text \<open>
  C9. \<open>Order.cancel\<close> raises ValueError from FILLED and from CANCELLED (the order is
  not changed: the model returns no new order); when it succeeds it only sets the status
  to CANCELLED. For every order the code can build (constructed by \<open>Order.__init__\<close>,
  then filled and cancelled any number of times) it succeeds exactly from PENDING and
  PARTIALLY_FILLED: no operation ever assigns REJECTED. The engine's \<open>cancel_order\<close> on
  an order that is FILLED or CANCELLED returns an error and the same engine state, and
  in every reachable engine state it succeeds only for an order that was PENDING or
  PARTIALLY_FILLED.
\<close>

theorem C9_cancel_only_open_orders:
  "(status od \<in> {FILLED, CANCELLED} \<longrightarrow> (\<exists>msg. cancel od = Inl (ValueError msg)))
   \<and> (cancel od = Inr od1 \<longrightarrow> od1 = od \<lparr> status := CANCELLED \<rparr>)
   \<and> (order_reachable od \<longrightarrow>
        ((\<exists>od2. cancel od = Inr od2) \<longleftrightarrow> status od \<in> {PENDING, PARTIALLY_FILLED}))
   \<and> (all_orders (engine w) oid = Some r \<and> status (heap w r) \<in> {FILLED, CANCELLED} \<longrightarrow>
        MatchingEngine_cancel_order w oid
          = (ErrorResponse (CannotBeCancelled (status (heap w r))), w))
   \<and> (engine_reachable w \<and> fst (MatchingEngine_cancel_order w oid) = CancelResponse od3 \<longrightarrow>
        (\<exists>x. all_orders (engine w) oid = Some x
            \<and> status (heap w x) \<in> {PENDING, PARTIALLY_FILLED}))"
proof (intro conjI impI)
  assume "status od \<in> {FILLED, CANCELLED}"
  then show "\<exists>msg. cancel od = Inl (ValueError msg)" by (simp add: cancel_def)
next
  assume "cancel od = Inr od1"
  then show "od1 = od \<lparr> status := CANCELLED \<rparr>" by (auto simp: cancel_def split: if_splits)
next
  assume "order_reachable od"
  then have "status od \<noteq> REJECTED" by (rule order_reachable_not_rejected)
  then show "(\<exists>od2. cancel od = Inr od2) \<longleftrightarrow> status od \<in> {PENDING, PARTIALLY_FILLED}"
    by (cases "status od") (auto simp: cancel_def)
next
  assume "all_orders (engine w) oid = Some r \<and> status (heap w r) \<in> {FILLED, CANCELLED}"
  then show "MatchingEngine_cancel_order w oid
          = (ErrorResponse (CannotBeCancelled (status (heap w r))), w)"
    by (auto simp: MatchingEngine_cancel_order_def)
next
  assume a: "engine_reachable w \<and> fst (MatchingEngine_cancel_order w oid) = CancelResponse od3"
  then have nr: "no_rejected w" by (simp add: engine_reachable_no_rejected)
  from a obtain x where x: "all_orders (engine w) oid = Some x"
    and st: "status (heap w x) \<notin> {FILLED, CANCELLED}"
    by (auto simp: MatchingEngine_cancel_order_def Let_def
        split: option.splits if_splits prod.splits sum.splits)
  from nr x have "status (heap w x) \<noteq> REJECTED" by (auto simp: no_rejected_def)
  with st have "status (heap w x) \<in> {PENDING, PARTIALLY_FILLED}"
    by (cases "status (heap w x)") auto
  with x show "\<exists>x. all_orders (engine w) oid = Some x
            \<and> status (heap w x) \<in> {PENDING, PARTIALLY_FILLED}" by blast
qed

text \<open>
  C9, witness: after a sell of 1 at 100 (id u1) was bought in full, cancelling u1 is
  refused and the state is unchanged.
\<close>

theorem C9_cancel_only_open_orders_witness:
  "status (heap world_after_trade 0) = FILLED
   \<and> MatchingEngine_cancel_order world_after_trade ''u1''
       = (ErrorResponse (CannotBeCancelled FILLED), world_after_trade)
   \<and> (\<exists>msg. cancel (heap world_after_trade 0) = Inl (ValueError msg))"
proof -
  have a: "all_orders (engine world_after_trade) ''u1'' = Some 0" by code_simp
  have s: "status (heap world_after_trade 0) = FILLED" by code_simp
  from C9_cancel_only_open_orders
         [of "heap world_after_trade 0" _ world_after_trade "''u1''" 0] a s
  show ?thesis by simp
qed

text \<open>
  C10. In every state the engine reaches, after \<open>submit_order\<close> returns (success or
  error) \<open>total_trades_executed\<close> equals the length of the global trade list, which
  equals the sum of the lengths of the per-symbol histories. On success the returned
  trades are appended, once and in order, to the global list and each to the history of
  its symbol, and \<open>total_orders_processed\<close> grows by one, which happens only when the
  request passed validation (the order was constructed). On an error the lists and both
  counters are unchanged.
\<close>

theorem C10_trade_counters:
  assumes "engine_reachable w"
  shows "counters_consistent (engine (snd (submit_order parse w request uuid)))
     \<and> (case submit_order parse w request uuid of
          (OrderResponse od ts, w') \<Rightarrow>
             trades (engine w') = trades (engine w) @ ts
             \<and> (\<forall>s. history_of (engine w') s
                      = history_of (engine w) s @ filter (\<lambda>t. trade_symbol t = s) ts)
             \<and> total_trades_executed (engine w') = total_trades_executed (engine w) + length ts
             \<and> total_orders_processed (engine w') = total_orders_processed (engine w) + 1
             \<and> (\<exists>od0. create_order_from_request parse request uuid = Inr od0)
        | (_, w') \<Rightarrow>
             trades (engine w') = trades (engine w)
             \<and> trade_history (engine w') = trade_history (engine w)
             \<and> total_trades_executed (engine w') = total_trades_executed (engine w)
             \<and> total_orders_processed (engine w') = total_orders_processed (engine w))"
proof -
  obtain res w' where s: "submit_order parse w request uuid = (res, w')"
    by (cases "submit_order parse w request uuid") auto
  from assms have "engine_reachable (snd (submit_order parse w request uuid))"
    by (rule engine_reachable.submit)
  then have "counters_consistent (engine (snd (submit_order parse w request uuid)))"
    by (rule engine_reachable_consistent)
  with submit_order_bookkeeping [OF s] show ?thesis
    by (cases res) (simp_all add: s)
qed

text \<open>
  C10, witness: a sell of 1 at 100, then a buy of 2 at 101: one trade, two orders
  processed.
\<close>

theorem C10_trade_counters_witness:
  "engine_reachable world_one_ask
   \<and> counters_consistent (engine world_after_trade)
   \<and> trades (engine world_after_trade)
       = [\<lparr> trade_symbol = ''BTC-USDT'', trade_price = 100, trade_quantity = 1,
            maker_order_id = ''u1'', taker_order_id = ''u2'', aggressor_side = BUY \<rparr>]
   \<and> total_trades_executed (engine world_after_trade) = 1
   \<and> total_orders_processed (engine world_after_trade) = 2"
proof -
  have "engine_reachable empty_world"
    unfolding empty_world_def by (rule engine_reachable.init)
  then have r: "engine_reachable world_one_ask"
    unfolding world_one_ask_def by (rule engine_reachable.submit)
  have t: "trades (engine world_after_trade)
       = [\<lparr> trade_symbol = ''BTC-USDT'', trade_price = 100, trade_quantity = 1,
            maker_order_id = ''u1'', taker_order_id = ''u2'', aggressor_side = BUY \<rparr>]"
    by code_simp
  have n: "total_trades_executed (engine world_after_trade) = 1"
    "total_orders_processed (engine world_after_trade) = 2"
    by code_simp+
  from C10_trade_counters [OF r, of "\<lambda>s. None" "limit_request ''buy'' 2 101" "''u2''"]
  have "counters_consistent (engine world_after_trade)"
    by (simp add: world_after_trade_def)
  with r t n show ?thesis by simp
qed

end
